theory Spec2Isabelle
  imports Main
begin

section \<open>The model book of \<open>src/model_book.py\<close>\<close>

text \<open>
  \<open>ModelBook\<close> holds dictionaries from names to model objects of the external
  library \<open>flappy\<close>. Its constructor fills the dictionaries; \<open>reduce\<close> builds a
  second book that keeps, in five of the dictionaries, only the names the turbines of a
  wind farm refer to.

  The embedding keeps what the claims depend on:
  \<^item> a Python \<open>dict\<close> is an association list in insertion order;
  \<^item> model objects live in a store, a dictionary holds their addresses, so that two
    names can be asked whether they hold the same object;
  \<^item> every \<open>raise\<close> is a value \<open>Inl e\<close> of the result.
\<close>

subsection \<open>Python values: \<open>str\<close> of an integer, \<open>range\<close>, dictionaries\<close>

definition digit_char :: "nat \<Rightarrow> char" where
  "digit_char d = ''0123456789'' ! d"

fun str_nat :: "nat \<Rightarrow> string" where
  "str_nat n = (if n < 10 then [digit_char n]
                else str_nat (n div 10) @ [digit_char (n mod 10)])"

declare str_nat.simps [simp del]

text \<open>\<open>str(i)\<close> for a Python integer: decimal digits, a minus sign when negative.\<close>

definition str_int :: "int \<Rightarrow> string" where
  "str_int i = (if i < 0 then CHR ''-'' # str_nat (nat (- i)) else str_nat (nat i))"

text \<open>\<open>range(a, b)\<close>: the integers from \<open>a\<close> up to \<open>b - 1\<close>.\<close>

definition range_py :: "int \<Rightarrow> int \<Rightarrow> int list" where
  "range_py a b = [a..b - 1]"

type_synonym 'v pydict = "(string \<times> 'v) list"

datatype error =
    KeyError string
  | AttributeError string
  | CurveFileError string
  | NoObject nat

text \<open>\<open>k in d\<close>, \<open>d[k]\<close> (a \<open>KeyError\<close> carrying the key when it is absent),
  \<open>d[k] = v\<close> (an existing key keeps its position and gets the new value, a new key
  goes to the end) and \<open>list(d.keys())\<close>.\<close>

definition dict_contains :: "'v pydict \<Rightarrow> string \<Rightarrow> bool" where
  "dict_contains d k = (k \<in> set (map fst d))"

definition dict_get :: "'v pydict \<Rightarrow> string \<Rightarrow> error + 'v" where
  "dict_get d k = (case map_of d k of None \<Rightarrow> Inl (KeyError k) | Some v \<Rightarrow> Inr v)"

fun dict_set :: "'v pydict \<Rightarrow> string \<Rightarrow> 'v \<Rightarrow> 'v pydict" where
  "dict_set [] k v = [(k, v)]"
| "dict_set (p # ps) k v = (if fst p = k then (k, v) # ps else p # dict_set ps k v)"

definition dict_keys :: "'v pydict \<Rightarrow> string list" where
  "dict_keys d = map fst d"

subsection \<open>The models of \<open>flappy\<close> and the object store\<close>

text \<open>
  A float literal of the source, mantissa and decimal exponent: \<open>0.07\<close> is
  \<open>Float_lit 7 (-2)\<close>, \<open>3.\<close> is \<open>Float_lit 3 0\<close>. The book only passes it on.
\<close>

datatype pyfloat = Float_lit int int

text \<open>
  One constructor for each constructor call of \<open>flappy.models\<close> in the source, with the
  keyword arguments the source gives (\<open>None\<close> for an argument left to its default).
\<close>

datatype flm =
    RMCentre
  | RMStencil
  | RMRing int
  | RMRings "int list" "int list option"
  | RMGrid int
  | Ws2PCt string
  | Yaw2Yawm bool bool
  | Yawm2Yaw bool bool
  | ZeroOutsideFarm
  | FarmTurbineOrder
  | WindTurbineOrder bool
  | WakeFrameTurbineOrder
  | WTCDefault
  | WMJensen "pyfloat option"
  | WMFrandsen
  | WMBastankhah "pyfloat option"
  | WMPorteAgel
  | WMBotasso
  | WMIshiharaWind
  | WMIshiharaTI
  | WMIECTI2005
  | WMIECTI2019
  | WMTICrespoHernandez
  | TISuperpCollection string
  | WindSuperpLinear bool bool
  | WindSuperpQuadratic bool bool
  | WindSuperpProduct
  | AmbientWindFrame
  | RotorWindFrame
  | YawDeflectionFrame
  | StreamlineFrame
  | CablesMST

text \<open>
  An object: the constructor call that made it, and its attribute \<open>partial_wakes\<close>
  (\<open>None\<close> when the object has no such attribute). The store is the list of all objects
  made so far; the address of an object is its index.
\<close>

record pyobj =
  made_by :: flm
  partial_wakes :: "bool option"

type_synonym ref = nat
type_synonym heap = "pyobj list"

text \<open>
  What the book needs to know of \<open>flappy\<close>, which is not part of the repository: the
  value a wake model's constructor gives to \<open>partial_wakes\<close>, and whether
  \<open>flm.Ws2PCt\<close> accepts a curve file or raises.
\<close>

record flappy =
  wm_partial_wakes :: "flm \<Rightarrow> bool"
  ws2pct_accepts :: "string \<Rightarrow> bool"

definition alloc :: "heap \<Rightarrow> pyobj \<Rightarrow> heap \<times> ref" where
  "alloc h x = (h @ [x], length h)"

text \<open>A call \<open>flm.X(...)\<close> of a model without the attribute, and of a wake model.\<close>

definition new_model :: "heap \<Rightarrow> flm \<Rightarrow> heap \<times> ref" where
  "new_model h c = alloc h \<lparr>made_by = c, partial_wakes = None\<rparr>"

definition new_wake_model :: "flappy \<Rightarrow> heap \<Rightarrow> flm \<Rightarrow> heap \<times> ref" where
  "new_wake_model fl h c = alloc h \<lparr>made_by = c, partial_wakes = Some (wm_partial_wakes fl c)\<rparr>"

text \<open>
  \<open>m.partial_wakes\<close>, \<open>m.partial_wakes = b\<close> and \<open>deepcopy(m)\<close>. An address outside
  the store is no Python object; the model answers \<open>NoObject\<close> there.
\<close>

definition get_partial_wakes :: "heap \<Rightarrow> ref \<Rightarrow> error + bool" where
  "get_partial_wakes h a =
     (if a < length h then
        (case partial_wakes (h ! a) of
           None \<Rightarrow> Inl (AttributeError ''partial_wakes'')
         | Some b \<Rightarrow> Inr b)
      else Inl (NoObject a))"

definition set_partial_wakes :: "heap \<Rightarrow> ref \<Rightarrow> bool \<Rightarrow> error + heap" where
  "set_partial_wakes h a b =
     (if a < length h then Inr (h[a := (h ! a)\<lparr>partial_wakes := Some b\<rparr>])
      else Inl (NoObject a))"

definition deepcopy :: "heap \<Rightarrow> ref \<Rightarrow> error + heap \<times> ref" where
  "deepcopy h a = (if a < length h then Inr (alloc h (h ! a)) else Inl (NoObject a))"

subsection \<open>The book and its constructor\<close>

record ModelBook =
  amb_states_models :: "ref pydict"
  rotor_models :: "ref pydict"
  turbine_models :: "ref pydict"
  turbine_orders :: "ref pydict"
  controllers :: "ref pydict"
  wake_models :: "ref pydict"
  wake_superp :: "ref pydict"
  wake_frames :: "ref pydict"
  farm_calc_data_models :: "ref pydict"
  vert_profiles :: "string pydict"

text \<open>The statement \<open>d[k] = flm.X(...)\<close>: make the object, then store its address.\<close>

definition reg :: "heap \<times> ref pydict \<Rightarrow> string \<Rightarrow> flm \<Rightarrow> heap \<times> ref pydict" where
  "reg s k c = (case s of (h, d) \<Rightarrow> (case new_model h c of (h', a) \<Rightarrow> (h', dict_set d k a)))"

definition reg_wake :: "flappy \<Rightarrow> heap \<times> ref pydict \<Rightarrow> string \<Rightarrow> flm \<Rightarrow> heap \<times> ref pydict" where
  "reg_wake fl s k c =
     (case s of (h, d) \<Rightarrow> (case new_wake_model fl h c of (h', a) \<Rightarrow> (h', dict_set d k a)))"

text \<open>\<open>for n in range(3,13): self.rotor_models['ring' + str(n + 1)] = flm.RMRing(n=n)\<close>\<close>

fun ring_loop :: "int list \<Rightarrow> heap \<times> ref pydict \<Rightarrow> heap \<times> ref pydict" where
  "ring_loop [] s = s"
| "ring_loop (n # ns) s = ring_loop ns (reg s (''ring'' @ str_int (n + 1)) (RMRing n))"

text \<open>\<open>for n in range(2,11): self.rotor_models['grid' + str(n*n)] = flm.RMGrid(n=n)\<close>\<close>

fun grid_loop :: "int list \<Rightarrow> heap \<times> ref pydict \<Rightarrow> heap \<times> ref pydict" where
  "grid_loop [] s = s"
| "grid_loop (n # ns) s = grid_loop ns (reg s (''grid'' @ str_int (n * n)) (RMGrid n))"

definition init_rotor_models :: "heap \<Rightarrow> heap \<times> ref pydict" where
  "init_rotor_models h =
     (let s = (h, []);
          s = reg s ''centre'' RMCentre;
          s = reg s ''stencil'' RMStencil;
          s = ring_loop (range_py 3 13) s;
          s = reg s ''two_rings9'' (RMRings [4, 4] (Some [45, 0]));
          s = reg s ''two_rings13'' (RMRings [4, 8] None);
          s = reg s ''three_rings19'' (RMRings [4, 6, 8] None);
          s = reg s ''four_rings29'' (RMRings [4, 6, 8, 10] None);
          s = grid_loop (range_py 2 11) s;
          s = reg s ''grid400'' (RMGrid 20);
          s = reg s ''grid10000'' (RMGrid 100)
      in s)"

definition init_turbine_models :: "flappy \<Rightarrow> heap \<Rightarrow> string option \<Rightarrow> error + heap \<times> ref pydict" where
  "init_turbine_models fl h ct_power_curve_file =
     (case (case ct_power_curve_file of
              None \<Rightarrow> Inr (h, [])
            | Some f \<Rightarrow>
                if ws2pct_accepts fl f then Inr (reg (h, []) ''ct_P_curves'' (Ws2PCt f))
                else Inl (CurveFileError f)) of
        Inl e \<Rightarrow> Inl e
      | Inr s \<Rightarrow>
          (let s = reg s ''yaw2yawm'' (Yaw2Yawm True False);
               s = reg s ''yawm2yaw'' (Yawm2Yaw True False);
               s = reg s ''zeroOutsideFarm'' ZeroOutsideFarm
           in Inr s))"

definition init_turbine_orders :: "heap \<Rightarrow> heap \<times> ref pydict" where
  "init_turbine_orders h =
     (let s = (h, []);
          s = reg s ''farm'' FarmTurbineOrder;
          s = reg s ''amb_wind'' (WindTurbineOrder True);
          s = reg s ''wake_wind'' (WindTurbineOrder False);
          s = reg s ''wake_frame'' WakeFrameTurbineOrder
      in s)"

definition init_controllers :: "heap \<Rightarrow> heap \<times> ref pydict" where
  "init_controllers h = reg (h, []) ''default'' WTCDefault"

definition init_wake_models :: "flappy \<Rightarrow> heap \<Rightarrow> heap \<times> ref pydict" where
  "init_wake_models fl h =
     (let s = (h, []);
          s = reg_wake fl s ''Jensen'' (WMJensen None);
          s = reg_wake fl s ''Jensen007'' (WMJensen (Some (Float_lit 7 (- 2))));
          s = reg_wake fl s ''Frandsen'' WMFrandsen;
          s = reg_wake fl s ''Bastankhah'' (WMBastankhah None);
          s = reg_wake fl s ''Bastankhah_smear3'' (WMBastankhah (Some (Float_lit 3 0)));
          s = reg_wake fl s ''PorteAgel'' WMPorteAgel;
          s = reg_wake fl s ''Botasso'' WMBotasso;
          s = reg_wake fl s ''Ishihara_wind'' WMIshiharaWind;
          s = reg_wake fl s ''Ishihara_ti'' WMIshiharaTI;
          s = reg_wake fl s ''IEC_TI_2005'' WMIECTI2005;
          s = reg_wake fl s ''IEC_TI_2019'' WMIECTI2019;
          s = reg_wake fl s ''CrespoHernandez'' WMTICrespoHernandez
      in s)"

text \<open>
  The loop that adds the models without partial wakes:
  \<^verbatim>\<open>
  for mname in wmodels:
      m = self.wake_models[mname]
      if m.partial_wakes:
          mname2 = mname + "_rotor"
          self.wake_models[mname2] = deepcopy(m)
          self.wake_models[mname2].partial_wakes = False
  \<close>
\<close>

fun nopartial_loop :: "string list \<Rightarrow> heap \<times> ref pydict \<Rightarrow> error + heap \<times> ref pydict" where
  "nopartial_loop [] s = Inr s"
| "nopartial_loop (mname # rest) (h, wm) =
     (case dict_get wm mname of
        Inl e \<Rightarrow> Inl e
      | Inr m \<Rightarrow>
          (case get_partial_wakes h m of
             Inl e \<Rightarrow> Inl e
           | Inr pw \<Rightarrow>
               if pw then
                 (let mname2 = mname @ ''_rotor'' in
                  case deepcopy h m of
                    Inl e \<Rightarrow> Inl e
                  | Inr (h1, c) \<Rightarrow>
                      (let wm1 = dict_set wm mname2 c in
                       case dict_get wm1 mname2 of
                         Inl e \<Rightarrow> Inl e
                       | Inr a \<Rightarrow>
                           (case set_partial_wakes h1 a False of
                              Inl e \<Rightarrow> Inl e
                            | Inr h2 \<Rightarrow> nopartial_loop rest (h2, wm1))))
               else nopartial_loop rest (h, wm)))"

definition add_nopartial_models :: "heap \<times> ref pydict \<Rightarrow> error + heap \<times> ref pydict" where
  "add_nopartial_models s = (case s of (h, wm) \<Rightarrow> nopartial_loop (dict_keys wm) (h, wm))"

definition init_wake_superp :: "heap \<Rightarrow> heap \<times> ref pydict" where
  "init_wake_superp h =
     (let s = (h, []);
          s = reg s ''ti_linear'' (TISuperpCollection ''linear'');
          s = reg s ''ti_quadratic'' (TISuperpCollection ''quadratic'');
          s = reg s ''ti_max'' (TISuperpCollection ''max'');
          s = reg s ''wind_linear'' (WindSuperpLinear False False);
          s = reg s ''wind_linear_amb'' (WindSuperpLinear True False);
          s = reg s ''wind_linear_lim'' (WindSuperpLinear False True);
          s = reg s ''wind_linear_amb_lim'' (WindSuperpLinear True True);
          s = reg s ''wind_quadratic'' (WindSuperpQuadratic False False);
          s = reg s ''wind_quadratic_amb'' (WindSuperpQuadratic True False);
          s = reg s ''wind_quadratic_lim'' (WindSuperpQuadratic False True);
          s = reg s ''wind_quadratic_amb_lim'' (WindSuperpQuadratic True True);
          s = reg s ''wind_product'' WindSuperpProduct
      in s)"

definition init_wake_frames :: "heap \<Rightarrow> heap \<times> ref pydict" where
  "init_wake_frames h =
     (let s = (h, []);
          s = reg s ''amb_wind'' AmbientWindFrame;
          s = reg s ''rotor_wind'' RotorWindFrame;
          s = reg s ''yaw_deflection'' YawDeflectionFrame;
          s = reg s ''streamlines'' StreamlineFrame
      in s)"

definition init_farm_calc_data_models :: "heap \<Rightarrow> heap \<times> ref pydict" where
  "init_farm_calc_data_models h = reg (h, []) ''cables_mst'' CablesMST"

text \<open>The vertical profiles are stored as class names, \<open>X.__name__\<close>.\<close>

definition init_vert_profiles :: "string pydict" where
  "init_vert_profiles =
     (let d = [];
          d = dict_set d ''ws_abl_log_neutral'' ''ABLLogNeutralWsProfile'';
          d = dict_set d ''ws_abl_log_stable'' ''ABLLogStableWsProfile'';
          d = dict_set d ''ws_abl_log_unstable'' ''ABLLogUnstableWsProfile'';
          d = dict_set d ''ws_abl_log'' ''ABLLogWsProfile''
      in d)"

text \<open>\<open>ModelBook.__init__(self, ct_power_curve_file=None)\<close>, in the order of the source.\<close>

definition ModelBook_init :: "flappy \<Rightarrow> heap \<Rightarrow> string option \<Rightarrow> error + heap \<times> ModelBook" where
  "ModelBook_init fl h0 ct_power_curve_file =
     (case init_rotor_models h0 of (h1, rotor) \<Rightarrow>
     (case init_turbine_models fl h1 ct_power_curve_file of
        Inl e \<Rightarrow> Inl e
      | Inr (h2, tmodels) \<Rightarrow>
     (case init_turbine_orders h2 of (h3, orders) \<Rightarrow>
     (case init_controllers h3 of (h4, ctrls) \<Rightarrow>
     (case add_nopartial_models (init_wake_models fl h4) of
        Inl e \<Rightarrow> Inl e
      | Inr (h5, wakes) \<Rightarrow>
     (case init_wake_superp h5 of (h6, superp) \<Rightarrow>
     (case init_wake_frames h6 of (h7, frames) \<Rightarrow>
     (case init_farm_calc_data_models h7 of (h8, fcalc) \<Rightarrow>
        Inr (h8,
          \<lparr>amb_states_models = [],
           rotor_models = rotor,
           turbine_models = tmodels,
           turbine_orders = orders,
           controllers = ctrls,
           wake_models = wakes,
           wake_superp = superp,
           wake_frames = frames,
           farm_calc_data_models = fcalc,
           vert_profiles = init_vert_profiles\<rparr>)))))))))"

subsection \<open>Turbines and \<open>reduce\<close>\<close>

text \<open>
  A turbine's \<open>info\<close>, as far as \<open>reduce\<close> reads it: one name each for the rotor model,
  the controller and the wake frame, a sequence of names for the turbine models and for
  the wake models.
\<close>

record turbine =
  info_rotor_model :: string
  info_turbine_models :: "string list"
  info_controller :: string
  info_wake_models :: "string list"
  info_wake_frame :: string

record wind_farm =
  turbines :: "turbine list"

text \<open>
  The five dictionaries that \<open>reduce\<close> filters, in the order of the list \<open>mtyps\<close> of the
  source; the entry of \<open>ttyps\<close> at the same position is the turbine's \<open>info\<close> field
  read for it.
\<close>

datatype mtyp = Rotor_models | Turbine_models | Controllers | Wake_models | Wake_frames

definition mtyps :: "mtyp list" where
  "mtyps = [Rotor_models, Turbine_models, Controllers, Wake_models, Wake_frames]"

text \<open>\<open>self.__dict__[mtyp]\<close> and \<open>mbook.__dict__[mtyp] = mdict\<close>.\<close>

fun get_mdict :: "mtyp \<Rightarrow> ModelBook \<Rightarrow> ref pydict" where
  "get_mdict Rotor_models b = rotor_models b"
| "get_mdict Turbine_models b = turbine_models b"
| "get_mdict Controllers b = controllers b"
| "get_mdict Wake_models b = wake_models b"
| "get_mdict Wake_frames b = wake_frames b"

fun set_mdict :: "mtyp \<Rightarrow> ref pydict \<Rightarrow> ModelBook \<Rightarrow> ModelBook" where
  "set_mdict Rotor_models d b = b\<lparr>rotor_models := d\<rparr>"
| "set_mdict Turbine_models d b = b\<lparr>turbine_models := d\<rparr>"
| "set_mdict Controllers d b = b\<lparr>controllers := d\<rparr>"
| "set_mdict Wake_models d b = b\<lparr>wake_models := d\<rparr>"
| "set_mdict Wake_frames d b = b\<lparr>wake_frames := d\<rparr>"

text \<open>
  The names \<open>t.info[ttyp]\<close> gives for one turbine, in the order the source meets them:
  the elements of the sequence for \<open>'turbine_models'\<close> and \<open>'wake_models'\<close> (the
  \<open>for wm in t.info[ttyp]\<close> branch), the single name otherwise (the \<open>else\<close> branch).
  Both branches run the same two lines on each name, \<open>copy_ref\<close> below.
\<close>

fun info_keys :: "mtyp \<Rightarrow> turbine \<Rightarrow> string list" where
  "info_keys Rotor_models t = [info_rotor_model t]"
| "info_keys Turbine_models t = info_turbine_models t"
| "info_keys Controllers t = [info_controller t]"
| "info_keys Wake_models t = info_wake_models t"
| "info_keys Wake_frames t = [info_wake_frame t]"

text \<open>\<open>if not wm in mdict: mdict[wm] = mdict0[wm]\<close>\<close>

definition copy_ref :: "ref pydict \<Rightarrow> string \<Rightarrow> ref pydict \<Rightarrow> error + ref pydict" where
  "copy_ref mdict0 wm mdict =
     (if \<not> dict_contains mdict wm then
        (case dict_get mdict0 wm of
           Inl e \<Rightarrow> Inl e
         | Inr v \<Rightarrow> Inr (dict_set mdict wm v))
      else Inr mdict)"

fun wm_loop :: "ref pydict \<Rightarrow> string list \<Rightarrow> ref pydict \<Rightarrow> error + ref pydict" where
  "wm_loop mdict0 [] mdict = Inr mdict"
| "wm_loop mdict0 (wm # wms) mdict =
     (case copy_ref mdict0 wm mdict of
        Inl e \<Rightarrow> Inl e
      | Inr mdict' \<Rightarrow> wm_loop mdict0 wms mdict')"

text \<open>\<open>for t in wind_farm.turbines: ...\<close>, for one kind of dictionary.\<close>

fun turbines_loop :: "mtyp \<Rightarrow> ref pydict \<Rightarrow> turbine list \<Rightarrow> ref pydict \<Rightarrow> error + ref pydict" where
  "turbines_loop mt mdict0 [] mdict = Inr mdict"
| "turbines_loop mt mdict0 (t # ts) mdict =
     (case wm_loop mdict0 (info_keys mt t) mdict of
        Inl e \<Rightarrow> Inl e
      | Inr mdict' \<Rightarrow> turbines_loop mt mdict0 ts mdict')"

text \<open>\<open>for mi, mtyp in enumerate(mtyps): ...\<close>\<close>

fun mtyps_loop :: "mtyp list \<Rightarrow> ModelBook \<Rightarrow> turbine list \<Rightarrow> ModelBook \<Rightarrow> error + ModelBook" where
  "mtyps_loop [] self ts mbook = Inr mbook"
| "mtyps_loop (mt # mts) self ts mbook =
     (case turbines_loop mt (get_mdict mt self) ts [] of
        Inl e \<Rightarrow> Inl e
      | Inr mdict \<Rightarrow> mtyps_loop mts self ts (set_mdict mt mdict mbook))"

text \<open>
  \<open>ModelBook.reduce(self, wind_farm)\<close>. The new book comes from \<open>ModelBook()\<close>, the
  constructor without a curve file; an exception leaves no book.
\<close>

definition reduce :: "flappy \<Rightarrow> heap \<Rightarrow> ModelBook \<Rightarrow> wind_farm \<Rightarrow> error + heap \<times> ModelBook" where
  "reduce fl h self farm =
     (case ModelBook_init fl h None of
        Inl e \<Rightarrow> Inl e
      | Inr (h', mbook0) \<Rightarrow>
          (let mbook1 = mbook0\<lparr>wake_superp := wake_superp self\<rparr>;
               mbook2 = mbook1\<lparr>turbine_orders := turbine_orders self\<rparr>
           in case mtyps_loop mtyps self (turbines farm) mbook2 of
                Inl e \<Rightarrow> Inl e
              | Inr mbook \<Rightarrow> Inr (h', mbook)))"

subsection \<open>Notions used to state the properties\<close>

text \<open>An object without the attribute \<open>partial_wakes\<close>, and a wake model as its
  constructor leaves it.\<close>

definition plain :: "flm \<Rightarrow> pyobj" where
  "plain c = \<lparr>made_by = c, partial_wakes = None\<rparr>"

text \<open>The store \<open>h'\<close> has every object of \<open>h\<close>, unchanged and at the same address.\<close>

definition heap_extends :: "heap \<Rightarrow> heap \<Rightarrow> bool" where
  "heap_extends h h' = (length h \<le> length h' \<and> take (length h) h' = h)"

text \<open>Every name of a wake dictionary refers to an object that has the attribute.\<close>

definition wake_ok :: "heap \<Rightarrow> ref pydict \<Rightarrow> bool" where
  "wake_ok h wm = (\<forall>k a. map_of wm k = Some a \<longrightarrow> a < length h \<and> partial_wakes (h ! a) \<noteq> None)"

definition wake_obj :: "flappy \<Rightarrow> flm \<Rightarrow> pyobj" where
  "wake_obj fl c = \<lparr>made_by = c, partial_wakes = Some (wm_partial_wakes fl c)\<rparr>"

text \<open>The twelve assignments \<open>self.wake_models[name] = flm.X(...)\<close> of the constructor,
  as a table.\<close>

definition wake_model_calls :: "(string \<times> flm) list" where
  "wake_model_calls =
     [(''Jensen'', WMJensen None),
      (''Jensen007'', WMJensen (Some (Float_lit 7 (- 2)))),
      (''Frandsen'', WMFrandsen),
      (''Bastankhah'', WMBastankhah None),
      (''Bastankhah_smear3'', WMBastankhah (Some (Float_lit 3 0))),
      (''PorteAgel'', WMPorteAgel),
      (''Botasso'', WMBotasso),
      (''Ishihara_wind'', WMIshiharaWind),
      (''Ishihara_ti'', WMIshiharaTI),
      (''IEC_TI_2005'', WMIECTI2005),
      (''IEC_TI_2019'', WMIECTI2019),
      (''CrespoHernandez'', WMTICrespoHernandez)]"

text \<open>
  What the loop over \<open>wmodels\<close> has done when it ends in \<open>(h', wm')\<close>, started in
  \<open>(h, wm)\<close> on the names \<open>ms\<close>: old objects and old entries are as before, every new
  entry refers to a new object without partial wakes, and every name of \<open>ms\<close> whose model
  has partial wakes got its copy.
\<close>

definition nopartial_post :: "heap \<Rightarrow> ref pydict \<Rightarrow> string list \<Rightarrow> heap \<Rightarrow> ref pydict \<Rightarrow> bool" where
  "nopartial_post h wm ms h' wm' =
     (heap_extends h h' \<and> wake_ok h' wm' \<and>
      (\<forall>k. dict_contains wm k \<longrightarrow> map_of wm' k = map_of wm k) \<and>
      (\<forall>k a. map_of wm' k = Some a \<longrightarrow> \<not> dict_contains wm k \<longrightarrow>
         length h \<le> a \<and> partial_wakes (h' ! a) = Some False) \<and>
      (\<forall>m a. m \<in> set ms \<longrightarrow> map_of wm m = Some a \<longrightarrow> partial_wakes (h ! a) = Some True \<longrightarrow>
         (\<exists>a2. map_of wm' (m @ ''_rotor'') = Some a2 \<and> length h \<le> a2 \<and> a2 < length h' \<and>
               h' ! a2 = (h ! a)\<lparr>partial_wakes := Some False\<rparr>)))"


text \<open>The 27 assignments \<open>self.rotor_models[name] = flm.X(...)\<close> of the constructor, the
  two loops unrolled, as a table.\<close>

definition rotor_model_calls :: "(string \<times> flm) list" where
  "rotor_model_calls =
     [(''centre'', RMCentre), (''stencil'', RMStencil),
      (''ring4'', RMRing 3), (''ring5'', RMRing 4), (''ring6'', RMRing 5),
      (''ring7'', RMRing 6), (''ring8'', RMRing 7), (''ring9'', RMRing 8),
      (''ring10'', RMRing 9), (''ring11'', RMRing 10), (''ring12'', RMRing 11),
      (''ring13'', RMRing 12),
      (''two_rings9'', RMRings [4, 4] (Some [45, 0])),
      (''two_rings13'', RMRings [4, 8] None),
      (''three_rings19'', RMRings [4, 6, 8] None),
      (''four_rings29'', RMRings [4, 6, 8, 10] None),
      (''grid4'', RMGrid 2), (''grid9'', RMGrid 3), (''grid16'', RMGrid 4),
      (''grid25'', RMGrid 5), (''grid36'', RMGrid 6), (''grid49'', RMGrid 7),
      (''grid64'', RMGrid 8), (''grid81'', RMGrid 9), (''grid100'', RMGrid 10),
      (''grid400'', RMGrid 20), (''grid10000'', RMGrid 100)]"

subsection \<open>Concrete inputs\<close>

text \<open>
  A \<open>flappy\<close> in which every wake model but Frandsen's has partial wakes and a curve
  file is accepted when its name is not empty; a small store and a book over it; two
  turbines and wind farms over them.
\<close>

definition fl0 :: flappy where
  "fl0 = \<lparr>wm_partial_wakes = (\<lambda>c. c \<noteq> WMFrandsen), ws2pct_accepts = (\<lambda>f. f \<noteq> [])\<rparr>"

definition heap0 :: heap where
  "heap0 =
     [plain RMCentre, plain RMStencil, plain (RMGrid 20), plain (Yaw2Yawm True False),
      plain ZeroOutsideFarm, plain WTCDefault, wake_obj fl0 (WMJensen None),
      wake_obj fl0 WMFrandsen, (wake_obj fl0 (WMJensen None))\<lparr>partial_wakes := Some False\<rparr>,
      plain RotorWindFrame, plain AmbientWindFrame, plain (TISuperpCollection ''linear''),
      plain FarmTurbineOrder]"

definition book0 :: ModelBook where
  "book0 =
     \<lparr>amb_states_models = [],
      rotor_models = [(''centre'', 0), (''stencil'', 1), (''grid400'', 2)],
      turbine_models = [(''yaw2yawm'', 3), (''zeroOutsideFarm'', 4)],
      turbine_orders = [(''farm'', 12)],
      controllers = [(''default'', 5)],
      wake_models = [(''Jensen'', 6), (''Frandsen'', 7), (''Jensen_rotor'', 8)],
      wake_superp = [(''ti_linear'', 11)],
      wake_frames = [(''rotor_wind'', 9), (''amb_wind'', 10)],
      farm_calc_data_models = [],
      vert_profiles = []\<rparr>"

definition turbine_a :: turbine where
  "turbine_a =
     \<lparr>info_rotor_model = ''centre'', info_turbine_models = [''yaw2yawm''],
      info_controller = ''default'', info_wake_models = [''Jensen''],
      info_wake_frame = ''rotor_wind''\<rparr>"

definition turbine_b :: turbine where
  "turbine_b =
     \<lparr>info_rotor_model = ''grid400'', info_turbine_models = [''yaw2yawm''],
      info_controller = ''default'', info_wake_models = [''Jensen_rotor'', ''Jensen''],
      info_wake_frame = ''rotor_wind''\<rparr>"

definition farm_ab :: wind_farm where
  "farm_ab = \<lparr>turbines = [turbine_a, turbine_b]\<rparr>"

definition farm_bad_rotor :: wind_farm where
  "farm_bad_rotor = \<lparr>turbines = [turbine_a\<lparr>info_rotor_model := ''nope''\<rparr>]\<rparr>"

definition farm_bad_controller :: wind_farm where
  "farm_bad_controller = \<lparr>turbines = [turbine_a\<lparr>info_controller := ''nope''\<rparr>]\<rparr>"

section \<open>Lemmas\<close>

subsection \<open>Dictionaries and the loops of \<open>reduce\<close>\<close>

lemma map_of_dict_set: "map_of (dict_set d k v) = (map_of d)(k \<mapsto> v)"
  by (induction d) (auto simp: fun_eq_iff)

lemma keys_dict_set:
  "map fst (dict_set d k v) = (if k \<in> set (map fst d) then map fst d else map fst d @ [k])"
  by (induction d) auto

lemma dict_contains_Nil: "\<not> dict_contains [] k"
  by (simp add: dict_contains_def)

lemma dict_contains_set: "dict_contains (dict_set d k v) k' \<longleftrightarrow> k' = k \<or> dict_contains d k'"
  by (auto simp: dict_contains_def keys_dict_set)

lemma dict_contains_map_of: "dict_contains d k \<longleftrightarrow> map_of d k \<noteq> None"
  by (simp add: dict_contains_def map_of_eq_None_iff)

lemma distinct_dict_set: "distinct (map fst d) \<Longrightarrow> distinct (map fst (dict_set d k v))"
  by (simp add: keys_dict_set)

lemma copy_ref_Inr:
  "copy_ref m0 wm d = Inr d' \<longleftrightarrow>
     (dict_contains d wm \<and> d' = d) \<or>
     (\<not> dict_contains d wm \<and> (\<exists>v. map_of m0 wm = Some v \<and> d' = dict_set d wm v))"
  by (auto simp: copy_ref_def dict_get_def split: option.splits)

lemma copy_ref_Inl:
  "copy_ref m0 wm d = Inl e \<longleftrightarrow> \<not> dict_contains d wm \<and> map_of m0 wm = None \<and> e = KeyError wm"
  by (auto simp: copy_ref_def dict_get_def split: option.splits)

lemma copy_ref_contains:
  "copy_ref m0 wm d = Inr d' \<Longrightarrow> dict_contains d' k \<longleftrightarrow> k = wm \<or> dict_contains d k"
  by (auto simp: copy_ref_Inr dict_contains_set)

lemma copy_ref_distinct:
  "copy_ref m0 wm d = Inr d' \<Longrightarrow> distinct (map fst d) \<Longrightarrow> distinct (map fst d')"
  by (auto simp: copy_ref_Inr distinct_dict_set)

lemma copy_ref_map_of:
  "copy_ref m0 wm d = Inr d' \<Longrightarrow>
     map_of d' k = (if dict_contains d k then map_of d k
                    else if k = wm then map_of m0 k else None)"
  by (auto simp: copy_ref_Inr map_of_dict_set dict_contains_map_of)

lemma wm_loop_Cons_Inr:
  "wm_loop m0 (k # ks) d = Inr d' \<longleftrightarrow>
     (\<exists>d1. copy_ref m0 k d = Inr d1 \<and> wm_loop m0 ks d1 = Inr d')"
  by (simp split: sum.splits)

lemma wm_loop_contains:
  "wm_loop m0 ks d = Inr d' \<Longrightarrow> dict_contains d' k \<longleftrightarrow> dict_contains d k \<or> k \<in> set ks"
proof (induction ks arbitrary: d)
  case Nil
  then show ?case by simp
next
  case (Cons x ks)
  then obtain d1 where s: "copy_ref m0 x d = Inr d1" and r: "wm_loop m0 ks d1 = Inr d'"
    by (auto simp del: wm_loop.simps simp add: wm_loop_Cons_Inr)
  show ?case
    unfolding Cons.IH [OF r] copy_ref_contains [OF s] by auto
qed

lemma wm_loop_distinct:
  "wm_loop m0 ks d = Inr d' \<Longrightarrow> distinct (map fst d) \<Longrightarrow> distinct (map fst d')"
proof (induction ks arbitrary: d)
  case Nil
  then show ?case by simp
next
  case (Cons x ks)
  then obtain d1 where s: "copy_ref m0 x d = Inr d1" and r: "wm_loop m0 ks d1 = Inr d'"
    by (auto simp del: wm_loop.simps simp add: wm_loop_Cons_Inr)
  from copy_ref_distinct [OF s Cons.prems(2)] Cons.IH [OF r] show ?case by simp
qed

lemma wm_loop_map_of:
  "wm_loop m0 ks d = Inr d' \<Longrightarrow>
     map_of d' k = (if dict_contains d k then map_of d k
                    else if k \<in> set ks then map_of m0 k else None)"
proof (induction ks arbitrary: d)
  case Nil
  then show ?case by (simp add: dict_contains_map_of)
next
  case (Cons x ks)
  then obtain d1 where s: "copy_ref m0 x d = Inr d1" and r: "wm_loop m0 ks d1 = Inr d'"
    by (auto simp del: wm_loop.simps simp add: wm_loop_Cons_Inr)
  show ?case
    unfolding Cons.IH [OF r] copy_ref_contains [OF s] copy_ref_map_of [OF s]
    by (cases "k = x") (simp_all add: dict_contains_map_of)
qed

lemma wm_loop_Inl:
  "wm_loop m0 ks d = Inl e \<Longrightarrow>
     \<exists>k \<in> set ks. e = KeyError k \<and> map_of m0 k = None \<and> \<not> dict_contains d k"
proof (induction ks arbitrary: d)
  case Nil
  then show ?case by simp
next
  case (Cons x ks)
  show ?case
  proof (cases "copy_ref m0 x d")
    case (Inl e')
    with Cons.prems show ?thesis by (simp add: copy_ref_Inl)
  next
    case (Inr d1)
    with Cons.prems have r: "wm_loop m0 ks d1 = Inl e" by simp
    from Cons.IH [OF r] obtain k where "k \<in> set ks" "e = KeyError k" "map_of m0 k = None"
      "\<not> dict_contains d1 k" by blast
    moreover from this copy_ref_contains [OF Inr, of k] have "\<not> dict_contains d k" by simp
    ultimately show ?thesis by auto
  qed
qed

lemma wm_loop_Inr_iff:
  "(\<exists>d'. wm_loop m0 ks d = Inr d') \<longleftrightarrow>
     (\<forall>k \<in> set ks. dict_contains d k \<or> map_of m0 k \<noteq> None)"
proof (induction ks arbitrary: d)
  case Nil
  then show ?case by simp
next
  case (Cons x ks)
  show ?case
  proof (cases "copy_ref m0 x d")
    case (Inl e')
    then have "\<not> dict_contains d x" "map_of m0 x = None"
      by (simp_all add: copy_ref_Inl)
    with Inl show ?thesis by auto
  next
    case (Inr d1)
    then have x: "dict_contains d x \<or> map_of m0 x \<noteq> None"
      by (auto simp: copy_ref_Inr)
    have "(\<exists>d'. wm_loop m0 (x # ks) d = Inr d') \<longleftrightarrow> (\<exists>d'. wm_loop m0 ks d1 = Inr d')"
      using Inr by simp
    also have "\<dots> \<longleftrightarrow> (\<forall>k \<in> set ks. dict_contains d1 k \<or> map_of m0 k \<noteq> None)"
      by (rule Cons.IH)
    also have "\<dots> \<longleftrightarrow> (\<forall>k \<in> set (x # ks). dict_contains d k \<or> map_of m0 k \<noteq> None)"
      using x by (auto simp: copy_ref_contains [OF Inr])
    finally show ?thesis .
  qed
qed

lemma wm_loop_append:
  "wm_loop m0 (xs @ ys) d =
     (case wm_loop m0 xs d of Inl e \<Rightarrow> Inl e | Inr d' \<Rightarrow> wm_loop m0 ys d')"
  by (induction xs arbitrary: d) (auto split: sum.splits)

lemma turbines_loop_eq:
  "turbines_loop mt m0 ts d = wm_loop m0 (concat (map (info_keys mt) ts)) d"
  by (induction ts arbitrary: d) (auto simp: wm_loop_append split: sum.splits)

lemma copy_ref_cong:
  "(\<not> dict_contains d wm \<Longrightarrow> map_of m1 wm = map_of m0 wm) \<Longrightarrow> copy_ref m1 wm d = copy_ref m0 wm d"
  by (auto simp: copy_ref_def dict_get_def)

lemma wm_loop_cong:
  "(\<And>k. k \<in> set ks \<Longrightarrow> \<not> dict_contains d k \<Longrightarrow> map_of m1 k = map_of m0 k) \<Longrightarrow>
     wm_loop m1 ks d = wm_loop m0 ks d"
proof (induction ks arbitrary: d)
  case Nil
  then show ?case by simp
next
  case (Cons x ks)
  have c: "copy_ref m1 x d = copy_ref m0 x d"
    by (rule copy_ref_cong) (simp add: Cons.prems)
  show ?case
  proof (cases "copy_ref m0 x d")
    case (Inl e)
    with c show ?thesis by simp
  next
    case (Inr d1)
    have "wm_loop m1 ks d1 = wm_loop m0 ks d1"
    proof (rule Cons.IH)
      fix k assume "k \<in> set ks" "\<not> dict_contains d1 k"
      with copy_ref_contains [OF Inr, of k] show "map_of m1 k = map_of m0 k"
        by (simp add: Cons.prems)
    qed
    with c Inr show ?thesis by simp
  qed
qed

lemma wm_loop_again:
  assumes "wm_loop m0 ks [] = Inr d"
  shows "wm_loop d ks [] = Inr d"
proof -
  have "wm_loop d ks [] = wm_loop m0 ks []"
    by (rule wm_loop_cong) (simp add: wm_loop_map_of [OF assms])
  with assms show ?thesis by simp
qed

lemma get_set_mdict:
  "get_mdict mt (set_mdict mt' d b) = (if mt = mt' then d else get_mdict mt b)"
  by (cases mt; cases mt') simp_all

lemma set_mdict_frame:
  "wake_superp (set_mdict mt d b) = wake_superp b"
  "turbine_orders (set_mdict mt d b) = turbine_orders b"
  "amb_states_models (set_mdict mt d b) = amb_states_models b"
  "farm_calc_data_models (set_mdict mt d b) = farm_calc_data_models b"
  "vert_profiles (set_mdict mt d b) = vert_profiles b"
  by (cases mt; simp)+

lemma mtyps_loop_frame:
  "mtyps_loop mts self ts b = Inr b' \<Longrightarrow>
     wake_superp b' = wake_superp b \<and> turbine_orders b' = turbine_orders b \<and>
     amb_states_models b' = amb_states_models b \<and>
     farm_calc_data_models b' = farm_calc_data_models b \<and>
     vert_profiles b' = vert_profiles b"
  by (induction mts arbitrary: b) (auto simp: set_mdict_frame split: sum.splits)

lemma mtyps_loop_other:
  "mtyps_loop mts self ts b = Inr b' \<Longrightarrow> mt \<notin> set mts \<Longrightarrow> get_mdict mt b' = get_mdict mt b"
  by (induction mts arbitrary: b) (auto simp: get_set_mdict split: sum.splits)

lemma mtyps_loop_Inr:
  "mtyps_loop mts self ts b = Inr b' \<Longrightarrow> distinct mts \<Longrightarrow> mt \<in> set mts \<Longrightarrow>
     turbines_loop mt (get_mdict mt self) ts [] = Inr (get_mdict mt b')"
proof (induction mts arbitrary: b)
  case Nil
  then show ?case by simp
next
  case (Cons x mts)
  then obtain d where d: "turbines_loop x (get_mdict x self) ts [] = Inr d"
    and r: "mtyps_loop mts self ts (set_mdict x d b) = Inr b'"
    by (auto split: sum.splits)
  show ?case
  proof (cases "mt = x")
    case True
    with Cons.prems(2) have "x \<notin> set mts" by simp
    from mtyps_loop_other [OF r this] d True show ?thesis by (simp add: get_set_mdict)
  next
    case False
    with Cons.prems Cons.IH [OF r] show ?thesis by simp
  qed
qed

lemma mtyps_loop_Inl:
  "mtyps_loop mts self ts b = Inl e \<Longrightarrow>
     \<exists>mt \<in> set mts. turbines_loop mt (get_mdict mt self) ts [] = Inl e"
  by (induction mts arbitrary: b) (auto split: sum.splits)

lemma mtyps_loop_total:
  "(\<exists>b'. mtyps_loop mts self ts b = Inr b') \<longleftrightarrow>
     (\<forall>mt \<in> set mts. \<exists>d. turbines_loop mt (get_mdict mt self) ts [] = Inr d)"
  by (induction mts arbitrary: b) (auto split: sum.splits)

lemma set_mtyps: "mt \<in> set mtyps"
  by (cases mt) (simp_all add: mtyps_def)

lemma distinct_mtyps: "distinct mtyps"
  by (simp add: mtyps_def)

subsection \<open>The phases of the constructor\<close>

lemma reg_eq:
  "reg (h, d) k c = (h @ [\<lparr>made_by = c, partial_wakes = None\<rparr>], dict_set d k (length h))"
  by (simp add: reg_def new_model_def alloc_def)

lemma range_3_13: "range_py 3 13 = [3, 4, 5, 6, 7, 8, 9, 10, 11, 12]"
  by code_simp

lemma range_2_11: "range_py 2 11 = [2, 3, 4, 5, 6, 7, 8, 9, 10]"
  by code_simp

lemma str_ring:
  "str_int 4 = ''4''" "str_int 5 = ''5''" "str_int 6 = ''6''" "str_int 7 = ''7''"
  "str_int 8 = ''8''" "str_int 9 = ''9''" "str_int 10 = ''10''" "str_int 11 = ''11''"
  "str_int 12 = ''12''" "str_int 13 = ''13''"
  by code_simp+

lemma str_grid:
  "str_int 16 = ''16''" "str_int 25 = ''25''" "str_int 36 = ''36''" "str_int 49 = ''49''"
  "str_int 64 = ''64''" "str_int 81 = ''81''" "str_int 100 = ''100''"
  by code_simp+

lemma init_rotor_models_eq:
  "init_rotor_models h =
     (h @ map plain
        [RMCentre, RMStencil,
         RMRing 3, RMRing 4, RMRing 5, RMRing 6, RMRing 7, RMRing 8, RMRing 9, RMRing 10,
         RMRing 11, RMRing 12,
         RMRings [4, 4] (Some [45, 0]), RMRings [4, 8] None, RMRings [4, 6, 8] None,
         RMRings [4, 6, 8, 10] None,
         RMGrid 2, RMGrid 3, RMGrid 4, RMGrid 5, RMGrid 6, RMGrid 7, RMGrid 8, RMGrid 9,
         RMGrid 10, RMGrid 20, RMGrid 100],
      zip [''centre'', ''stencil'',
           ''ring4'', ''ring5'', ''ring6'', ''ring7'', ''ring8'', ''ring9'', ''ring10'',
           ''ring11'', ''ring12'', ''ring13'',
           ''two_rings9'', ''two_rings13'', ''three_rings19'', ''four_rings29'',
           ''grid4'', ''grid9'', ''grid16'', ''grid25'', ''grid36'', ''grid49'', ''grid64'',
           ''grid81'', ''grid100'', ''grid400'', ''grid10000'']
          [length h ..< length h + 27])"
  by (simp add: init_rotor_models_def reg_eq range_3_13 range_2_11 str_ring str_grid plain_def
      upt_rec [of "length h"] upt_rec [of "Suc n" for n])


lemma heap_extends_refl: "heap_extends h h"
  by (simp add: heap_extends_def)

lemma heap_extends_append: "heap_extends h (h @ xs)"
  by (simp add: heap_extends_def)

lemma heap_extends_trans: "heap_extends h1 h2 \<Longrightarrow> heap_extends h2 h3 \<Longrightarrow> heap_extends h1 h3"
  unfolding heap_extends_def
  by (metis append_take_drop_id le_trans take_all_iff take_append length_take min.absorb2 take_take)

lemma heap_extends_nth: "heap_extends h h' \<Longrightarrow> a < length h \<Longrightarrow> h' ! a = h ! a"
  unfolding heap_extends_def by (metis nth_take)

lemma heap_extends_length: "heap_extends h h' \<Longrightarrow> length h \<le> length h'"
  by (simp add: heap_extends_def)

lemma reg_wake_eq:
  "reg_wake fl (h, d) k c = (h @ [wake_obj fl c], dict_set d k (length h))"
  by (simp add: reg_wake_def new_wake_model_def alloc_def wake_obj_def)

lemma init_wake_models_eq:
  "init_wake_models fl h =
     (h @ map (wake_obj fl) (map snd wake_model_calls),
      zip (map fst wake_model_calls) [length h ..< length h + 12])"
  by (simp add: init_wake_models_def reg_wake_eq wake_model_calls_def
      upt_rec [of "length h"] upt_rec [of "Suc n" for n])

lemma nopartial_step:
  assumes "map_of wm mname = Some m" "m < length h" "partial_wakes (h ! m) = Some b"
  shows "nopartial_loop (mname # rest) (h, wm) =
           (if b then
              nopartial_loop rest
                (h @ [(h ! m)\<lparr>partial_wakes := Some False\<rparr>],
                 dict_set wm (mname @ ''_rotor'') (length h))
            else nopartial_loop rest (h, wm))"
  using assms
  by (simp add: dict_get_def get_partial_wakes_def deepcopy_def alloc_def map_of_dict_set
      set_partial_wakes_def)

lemma init_turbine_models_None:
  "init_turbine_models fl h None =
     Inr (h @ map plain [Yaw2Yawm True False, Yawm2Yaw True False, ZeroOutsideFarm],
          [(''yaw2yawm'', length h), (''yawm2yaw'', length h + 1),
           (''zeroOutsideFarm'', length h + 2)])"
  by (simp add: init_turbine_models_def reg_eq plain_def)

lemma init_turbine_models_Some:
  "init_turbine_models fl h (Some f) =
     (if ws2pct_accepts fl f then
        Inr (h @ map plain [Ws2PCt f, Yaw2Yawm True False, Yawm2Yaw True False, ZeroOutsideFarm],
             [(''ct_P_curves'', length h), (''yaw2yawm'', length h + 1),
              (''yawm2yaw'', length h + 2), (''zeroOutsideFarm'', length h + 3)])
      else Inl (CurveFileError f))"
  by (simp add: init_turbine_models_def reg_eq plain_def)

lemma init_turbine_models_extends:
  "init_turbine_models fl h ct = Inr (h', d) \<Longrightarrow> heap_extends h h'"
  by (cases ct) (auto simp: init_turbine_models_None init_turbine_models_Some
      heap_extends_append split: if_splits)

lemma init_rotor_models_extends: "heap_extends h (fst (init_rotor_models h))"
  by (simp add: init_rotor_models_eq heap_extends_append)

lemma init_turbine_orders_extends: "heap_extends h (fst (init_turbine_orders h))"
  by (simp add: init_turbine_orders_def reg_eq heap_extends_def)

lemma init_controllers_extends: "heap_extends h (fst (init_controllers h))"
  by (simp add: init_controllers_def reg_eq heap_extends_def)

lemma init_wake_superp_extends: "heap_extends h (fst (init_wake_superp h))"
  by (simp add: init_wake_superp_def reg_eq heap_extends_def)

lemma init_wake_frames_extends: "heap_extends h (fst (init_wake_frames h))"
  by (simp add: init_wake_frames_def reg_eq heap_extends_def)

lemma init_farm_calc_data_models_eq:
  "init_farm_calc_data_models h = (h @ [plain CablesMST], [(''cables_mst'', length h)])"
  by (simp add: init_farm_calc_data_models_def reg_eq plain_def)

lemma init_vert_profiles_eq:
  "init_vert_profiles =
     [(''ws_abl_log_neutral'', ''ABLLogNeutralWsProfile''),
      (''ws_abl_log_stable'', ''ABLLogStableWsProfile''),
      (''ws_abl_log_unstable'', ''ABLLogUnstableWsProfile''),
      (''ws_abl_log'', ''ABLLogWsProfile'')]"
  by (simp add: init_vert_profiles_def)

lemma ModelBook_init_Inr:
  "ModelBook_init fl h ct = Inr (h', mb) \<longleftrightarrow>
     (\<exists>h2 tm h5 wk.
        init_turbine_models fl (fst (init_rotor_models h)) ct = Inr (h2, tm) \<and>
        add_nopartial_models
          (init_wake_models fl (fst (init_controllers (fst (init_turbine_orders h2))))) =
          Inr (h5, wk) \<and>
        h' = fst (init_farm_calc_data_models (fst (init_wake_frames (fst (init_wake_superp h5))))) \<and>
        mb = \<lparr>amb_states_models = [],
              rotor_models = snd (init_rotor_models h),
              turbine_models = tm,
              turbine_orders = snd (init_turbine_orders h2),
              controllers = snd (init_controllers (fst (init_turbine_orders h2))),
              wake_models = wk,
              wake_superp = snd (init_wake_superp h5),
              wake_frames = snd (init_wake_frames (fst (init_wake_superp h5))),
              farm_calc_data_models =
                snd (init_farm_calc_data_models (fst (init_wake_frames (fst (init_wake_superp h5))))),
              vert_profiles = init_vert_profiles\<rparr>)"
  unfolding ModelBook_init_def
  by (auto split: prod.splits sum.splits)

subsection \<open>The loop over \<open>wmodels\<close>\<close>

lemma nopartial_post_Nil: "wake_ok h wm \<Longrightarrow> nopartial_post h wm [] h wm"
  by (simp add: nopartial_post_def heap_extends_refl dict_contains_map_of)

lemma nopartial_post_skip:
  assumes "nopartial_post h wm rest h' wm'" "map_of wm m = Some a"
    "partial_wakes (h ! a) = Some False"
  shows "nopartial_post h wm (m # rest) h' wm'"
  using assms unfolding nopartial_post_def by auto

lemma wake_ok_copy:
  assumes ok: "wake_ok h wm" and a: "a < length h"
  shows "wake_ok (h @ [(h ! a)\<lparr>partial_wakes := Some False\<rparr>]) (dict_set wm k (length h))"
  using assms unfolding wake_ok_def
  by (auto simp: map_of_dict_set nth_append less_Suc_eq split: if_splits)

lemma nopartial_post_copy:
  assumes post: "nopartial_post (h @ [x]) (dict_set wm (m @ ''_rotor'') (length h)) rest h' wm'"
    and x: "x = (h ! a)\<lparr>partial_wakes := Some False\<rparr>"
    and m: "map_of wm m = Some a" and a: "a < length h"
    and ok: "wake_ok h wm"
    and fresh: "\<not> dict_contains wm (m @ ''_rotor'')"
  shows "nopartial_post h wm (m # rest) h' wm'"
proof -
  let ?h1 = "h @ [x]" and ?k = "m @ ''_rotor''"
  let ?wm1 = "dict_set wm ?k (length h)"
  from post have ext1: "heap_extends ?h1 h'" and ok': "wake_ok h' wm'"
    and keep1: "\<And>k. dict_contains ?wm1 k \<Longrightarrow> map_of wm' k = map_of ?wm1 k"
    and new1: "\<And>k b. map_of wm' k = Some b \<Longrightarrow> \<not> dict_contains ?wm1 k \<Longrightarrow>
                 length ?h1 \<le> b \<and> partial_wakes (h' ! b) = Some False"
    and der1: "\<And>n b. n \<in> set rest \<Longrightarrow> map_of ?wm1 n = Some b \<Longrightarrow>
                 partial_wakes (?h1 ! b) = Some True \<Longrightarrow>
                 \<exists>a2. map_of wm' (n @ ''_rotor'') = Some a2 \<and> length ?h1 \<le> a2 \<and>
                      a2 < length h' \<and> h' ! a2 = (?h1 ! b)\<lparr>partial_wakes := Some False\<rparr>"
    unfolding nopartial_post_def by blast+
  have ext: "heap_extends h h'"
    using heap_extends_trans [OF heap_extends_append ext1] .
  have len: "length h < length h'"
    using heap_extends_length [OF ext1] by simp
  have at_new: "h' ! length h = x"
    using heap_extends_nth [OF ext1, of "length h"] by simp
  have old: "\<And>b. b < length h \<Longrightarrow> ?h1 ! b = h ! b"
    by (simp add: nth_append)
  have k_new: "map_of wm' ?k = Some (length h)"
    using keep1 [of ?k] by (simp add: dict_contains_set map_of_dict_set)
  have keep: "\<And>k. dict_contains wm k \<Longrightarrow> map_of wm' k = map_of wm k"
  proof -
    fix k assume c: "dict_contains wm k"
    with fresh have "k \<noteq> ?k" by auto
    with keep1 [of k] c show "map_of wm' k = map_of wm k"
      by (simp add: dict_contains_set map_of_dict_set)
  qed
  have new: "\<And>k b. map_of wm' k = Some b \<Longrightarrow> \<not> dict_contains wm k \<Longrightarrow>
               length h \<le> b \<and> partial_wakes (h' ! b) = Some False"
  proof -
    fix k b assume k: "map_of wm' k = Some b" "\<not> dict_contains wm k"
    show "length h \<le> b \<and> partial_wakes (h' ! b) = Some False"
    proof (cases "k = ?k")
      case True
      with k k_new at_new x show ?thesis by simp
    next
      case False
      with k have "\<not> dict_contains ?wm1 k" by (simp add: dict_contains_set)
      from new1 [OF k(1) this] show ?thesis by simp
    qed
  qed
  have der: "\<And>n b. n \<in> set (m # rest) \<Longrightarrow> map_of wm n = Some b \<Longrightarrow>
               partial_wakes (h ! b) = Some True \<Longrightarrow>
               \<exists>a2. map_of wm' (n @ ''_rotor'') = Some a2 \<and> length h \<le> a2 \<and>
                    a2 < length h' \<and> h' ! a2 = (h ! b)\<lparr>partial_wakes := Some False\<rparr>"
  proof -
    fix n b assume n: "n \<in> set (m # rest)" "map_of wm n = Some b"
      "partial_wakes (h ! b) = Some True"
    from ok n(2) have b: "b < length h" by (simp add: wake_ok_def)
    show "\<exists>a2. map_of wm' (n @ ''_rotor'') = Some a2 \<and> length h \<le> a2 \<and>
               a2 < length h' \<and> h' ! a2 = (h ! b)\<lparr>partial_wakes := Some False\<rparr>"
    proof (cases "n = m")
      case True
      with n m have "b = a" by simp
      with True k_new len at_new x show ?thesis by simp
    next
      case False
      with n have r: "n \<in> set rest" by simp
      from n(2) fresh have "n \<noteq> ?k" by (auto simp: dict_contains_map_of)
      with n(2) have "map_of ?wm1 n = Some b" by (simp add: map_of_dict_set)
      from der1 [OF r this] n(3) old [OF b] show ?thesis by auto
    qed
  qed
  from ext ok' keep new der show ?thesis
    unfolding nopartial_post_def by blast
qed

lemma nopartial_loop_spec:
  assumes "wake_ok h wm" "\<forall>m \<in> set ms. dict_contains wm m" "distinct ms"
    "\<forall>m \<in> set ms. \<not> dict_contains wm (m @ ''_rotor'')"
  shows "\<exists>h' wm'. nopartial_loop ms (h, wm) = Inr (h', wm') \<and> nopartial_post h wm ms h' wm'"
  using assms
proof (induction ms arbitrary: h wm)
  case Nil
  then show ?case by (simp add: nopartial_post_Nil)
next
  case (Cons m rest)
  from Cons.prems(2) obtain a where m: "map_of wm m = Some a"
    by (auto simp: dict_contains_map_of)
  with Cons.prems(1) have a: "a < length h" and "partial_wakes (h ! a) \<noteq> None"
    by (simp_all add: wake_ok_def)
  then obtain b where b: "partial_wakes (h ! a) = Some b" by auto
  have fresh: "\<not> dict_contains wm (m @ ''_rotor'')" using Cons.prems(4) by simp
  show ?case
  proof (cases b)
    case False
    have step: "nopartial_loop (m # rest) (h, wm) = nopartial_loop rest (h, wm)"
      using nopartial_step [OF m a b] False by simp
    from Cons.prems have "\<exists>h' wm'. nopartial_loop rest (h, wm) = Inr (h', wm') \<and>
        nopartial_post h wm rest h' wm'"
      by (intro Cons.IH) simp_all
    then obtain h' wm' where r: "nopartial_loop rest (h, wm) = Inr (h', wm')"
      and p: "nopartial_post h wm rest h' wm'" by blast
    from nopartial_post_skip [OF p m] b False have "nopartial_post h wm (m # rest) h' wm'"
      by simp
    with step r show ?thesis by simp
  next
    case True
    let ?x = "(h ! a)\<lparr>partial_wakes := Some False\<rparr>"
    let ?h1 = "h @ [?x]" and ?wm1 = "dict_set wm (m @ ''_rotor'') (length h)"
    have step: "nopartial_loop (m # rest) (h, wm) = nopartial_loop rest (?h1, ?wm1)"
      using nopartial_step [OF m a b] True by simp
    have "\<exists>h' wm'. nopartial_loop rest (?h1, ?wm1) = Inr (h', wm') \<and>
        nopartial_post ?h1 ?wm1 rest h' wm'"
    proof (intro Cons.IH)
      show "wake_ok ?h1 ?wm1" using wake_ok_copy [OF Cons.prems(1) a] .
      show "\<forall>m \<in> set rest. dict_contains ?wm1 m"
        using Cons.prems(2) by (simp add: dict_contains_set)
      show "distinct rest" using Cons.prems(3) by simp
      show "\<forall>n \<in> set rest. \<not> dict_contains ?wm1 (n @ ''_rotor'')"
        using Cons.prems(3,4) by (auto simp: dict_contains_set)
    qed
    then obtain h' wm' where r: "nopartial_loop rest (?h1, ?wm1) = Inr (h', wm')"
      and p: "nopartial_post ?h1 ?wm1 rest h' wm'" by blast
    have "nopartial_post h wm (m # rest) h' wm'"
      by (rule nopartial_post_copy [OF p refl m a Cons.prems(1) fresh])
    with step r show ?thesis by simp
  qed
qed

subsection \<open>The constructor as a whole\<close>

lemma table_lookup:
  assumes "distinct (map fst tbl)" "(K, c) \<in> set tbl"
  shows "\<exists>i < length tbl. tbl ! i = (K, c) \<and>
           map_of (zip (map fst tbl) [n ..< n + length tbl]) K = Some (n + i)"
proof -
  from assms(2) obtain i where i: "i < length tbl" "tbl ! i = (K, c)"
    by (auto simp: in_set_conv_nth)
  have "map_of (zip (map fst tbl) [n ..< n + length tbl]) (map fst tbl ! i) =
          Some ([n ..< n + length tbl] ! i)"
    using assms(1) i(1) by (intro map_of_zip_nth) simp_all
  with i show ?thesis by auto
qed

lemma table_lookup_rev:
  assumes "map_of (zip (map fst tbl) [n ..< n + length tbl]) K = Some a"
  shows "\<exists>i < length tbl. a = n + i \<and> fst (tbl ! i) = K"
proof -
  from assms have "(K, a) \<in> set (zip (map fst tbl) [n ..< n + length tbl])"
    by (rule map_of_SomeD)
  then show ?thesis by (auto simp: in_set_zip)
qed

lemma wake_model_calls_facts:
  "length wake_model_calls = 12"
  "distinct (map fst wake_model_calls)"
  "\<forall>m \<in> set (map fst wake_model_calls). m @ ''_rotor'' \<notin> set (map fst wake_model_calls)"
  by (simp_all add: wake_model_calls_def)

text \<open>The state right after the twelve assignments, on the store \<open>h\<close>.\<close>

lemma init_wake_models_lookup:
  assumes "(K, c) \<in> set wake_model_calls"
  shows "\<exists>a. map_of (snd (init_wake_models fl h)) K = Some a \<and>
             a < length (fst (init_wake_models fl h)) \<and>
             fst (init_wake_models fl h) ! a = wake_obj fl c"
proof -
  from table_lookup [OF wake_model_calls_facts(2) assms, of "length h"]
  obtain i where i: "i < length wake_model_calls" "wake_model_calls ! i = (K, c)"
    "map_of (zip (map fst wake_model_calls) [length h ..< length h + length wake_model_calls]) K
       = Some (length h + i)" by blast
  then show ?thesis
    by (auto simp: init_wake_models_eq wake_model_calls_facts(1) nth_append)
qed

lemma init_wake_models_lookup_rev:
  assumes "map_of (snd (init_wake_models fl h)) K = Some a"
  shows "\<exists>c. (K, c) \<in> set wake_model_calls \<and> a < length (fst (init_wake_models fl h)) \<and>
             fst (init_wake_models fl h) ! a = wake_obj fl c"
proof -
  from assms have "map_of (zip (map fst wake_model_calls)
      [length h ..< length h + length wake_model_calls]) K = Some a"
    by (simp add: init_wake_models_eq wake_model_calls_facts(1))
  from table_lookup_rev [OF this] obtain i where i: "i < length wake_model_calls"
    "a = length h + i" "fst (wake_model_calls ! i) = K" by blast
  then have "(K, snd (wake_model_calls ! i)) \<in> set wake_model_calls"
    by (metis nth_mem prod.collapse)
  with i show ?thesis
    by (auto simp: init_wake_models_eq wake_model_calls_facts(1) nth_append)
qed

lemma init_wake_models_keys:
  "dict_keys (snd (init_wake_models fl h)) = map fst wake_model_calls"
  by (simp add: init_wake_models_eq dict_keys_def wake_model_calls_facts(1))

lemma init_wake_models_ok: "wake_ok (fst (init_wake_models fl h)) (snd (init_wake_models fl h))"
  unfolding wake_ok_def
proof (intro allI impI)
  fix k a assume "map_of (snd (init_wake_models fl h)) k = Some a"
  from init_wake_models_lookup_rev [OF this]
  show "a < length (fst (init_wake_models fl h)) \<and>
        partial_wakes (fst (init_wake_models fl h) ! a) \<noteq> None"
    by (auto simp: wake_obj_def)
qed

lemma init_wake_models_extends: "heap_extends h (fst (init_wake_models fl h))"
  by (simp add: init_wake_models_eq heap_extends_append)

lemma add_nopartial_models_eq:
  "add_nopartial_models s = nopartial_loop (dict_keys (snd s)) (fst s, snd s)"
  by (cases s) (simp add: add_nopartial_models_def)

lemma add_nopartial_models_spec:
  "\<exists>h' wm'. add_nopartial_models (init_wake_models fl h) = Inr (h', wm') \<and>
     nopartial_post (fst (init_wake_models fl h)) (snd (init_wake_models fl h))
       (map fst wake_model_calls) h' wm'"
proof -
  let ?s = "init_wake_models fl h"
  have keys: "dict_keys (snd ?s) = map fst wake_model_calls"
    by (rule init_wake_models_keys)
  have c: "\<And>k. dict_contains (snd ?s) k \<longleftrightarrow> k \<in> set (map fst wake_model_calls)"
    using keys by (simp add: dict_contains_def dict_keys_def)
  have "\<exists>h' wm'. nopartial_loop (map fst wake_model_calls) (fst ?s, snd ?s) = Inr (h', wm') \<and>
      nopartial_post (fst ?s) (snd ?s) (map fst wake_model_calls) h' wm'"
  proof (rule nopartial_loop_spec)
    show "wake_ok (fst ?s) (snd ?s)" by (rule init_wake_models_ok)
    show "\<forall>m \<in> set (map fst wake_model_calls). dict_contains (snd ?s) m"
      by (simp only: c) simp
    show "distinct (map fst wake_model_calls)" by (rule wake_model_calls_facts)
    show "\<forall>m \<in> set (map fst wake_model_calls). \<not> dict_contains (snd ?s) (m @ ''_rotor'')"
      unfolding c by (rule wake_model_calls_facts)
  qed
  then show ?thesis
    by (simp only: add_nopartial_models_eq keys)
qed

lemma ModelBook_init_ok:
  "(\<exists>h' mb. ModelBook_init fl h ct = Inr (h', mb)) \<longleftrightarrow>
     (case ct of None \<Rightarrow> True | Some f \<Rightarrow> ws2pct_accepts fl f)"
proof (cases "init_turbine_models fl (fst (init_rotor_models h)) ct")
  case (Inl e)
  then have "\<not> (\<exists>h' mb. ModelBook_init fl h ct = Inr (h', mb))"
    by (simp add: ModelBook_init_Inr)
  moreover from Inl have "\<not> (case ct of None \<Rightarrow> True | Some f \<Rightarrow> ws2pct_accepts fl f)"
    by (cases ct) (simp_all add: init_turbine_models_None init_turbine_models_Some split: if_splits)
  ultimately show ?thesis by simp
next
  case (Inr s)
  obtain h2 tm where s: "s = (h2, tm)" by (cases s)
  from add_nopartial_models_spec
  obtain h5 wk where "add_nopartial_models
      (init_wake_models fl (fst (init_controllers (fst (init_turbine_orders h2))))) = Inr (h5, wk)"
    by blast
  with Inr s have "\<exists>h' mb. ModelBook_init fl h ct = Inr (h', mb)"
    by (simp add: ModelBook_init_Inr)
  moreover from Inr have "case ct of None \<Rightarrow> True | Some f \<Rightarrow> ws2pct_accepts fl f"
    by (cases ct) (simp_all add: init_turbine_models_Some split: if_splits)
  ultimately show ?thesis by simp
qed

lemma ModelBook_init_None_ok: "\<exists>h' mb. ModelBook_init fl h None = Inr (h', mb)"
  by (simp add: ModelBook_init_ok)

text \<open>
  The parts of a finished book: the stores \<open>h1\<close> after the rotor models, \<open>h2\<close> after the
  turbine models, \<open>h4\<close> before and \<open>h5\<close> after the wake models.
\<close>

lemma ModelBook_init_parts:
  assumes "ModelBook_init fl h ct = Inr (h', mb)"
  shows "\<exists>h2 h4 h5.
     rotor_models mb = snd (init_rotor_models h) \<and>
     init_turbine_models fl (fst (init_rotor_models h)) ct = Inr (h2, turbine_models mb) \<and>
     heap_extends h (fst (init_rotor_models h)) \<and>
     heap_extends (fst (init_rotor_models h)) h2 \<and>
     heap_extends h2 h4 \<and>
     nopartial_post (fst (init_wake_models fl h4)) (snd (init_wake_models fl h4))
       (map fst wake_model_calls) h5 (wake_models mb) \<and>
     heap_extends h4 (fst (init_wake_models fl h4)) \<and>
     heap_extends h5 h' \<and>
     amb_states_models mb = [] \<and>
     vert_profiles mb = init_vert_profiles \<and>
     farm_calc_data_models mb = [(''cables_mst'', length h' - 1)] \<and>
     length h5 < length h' \<and>
     h' ! (length h' - 1) = plain CablesMST"
proof -
  from assms obtain h2 tm h5 wk where
    tm: "init_turbine_models fl (fst (init_rotor_models h)) ct = Inr (h2, tm)" and
    wk: "add_nopartial_models
          (init_wake_models fl (fst (init_controllers (fst (init_turbine_orders h2))))) =
          Inr (h5, wk)" and
    h': "h' = fst (init_farm_calc_data_models (fst (init_wake_frames (fst (init_wake_superp h5)))))" and
    mb: "mb = \<lparr>amb_states_models = [],
              rotor_models = snd (init_rotor_models h),
              turbine_models = tm,
              turbine_orders = snd (init_turbine_orders h2),
              controllers = snd (init_controllers (fst (init_turbine_orders h2))),
              wake_models = wk,
              wake_superp = snd (init_wake_superp h5),
              wake_frames = snd (init_wake_frames (fst (init_wake_superp h5))),
              farm_calc_data_models =
                snd (init_farm_calc_data_models (fst (init_wake_frames (fst (init_wake_superp h5))))),
              vert_profiles = init_vert_profiles\<rparr>"
    unfolding ModelBook_init_Inr by blast
  let ?h4 = "fst (init_controllers (fst (init_turbine_orders h2)))"
  let ?h7 = "fst (init_wake_frames (fst (init_wake_superp h5)))"
  from add_nopartial_models_spec [of fl ?h4] wk
  have post: "nopartial_post (fst (init_wake_models fl ?h4)) (snd (init_wake_models fl ?h4))
       (map fst wake_model_calls) h5 wk" by simp
  have e24: "heap_extends h2 ?h4"
    using heap_extends_trans [OF init_turbine_orders_extends init_controllers_extends] .
  have e57: "heap_extends h5 ?h7"
    using heap_extends_trans [OF init_wake_superp_extends init_wake_frames_extends] .
  have h'_eq: "h' = ?h7 @ [plain CablesMST]"
    by (simp add: h' init_farm_calc_data_models_eq)
  have e5: "heap_extends h5 h'"
    unfolding h'_eq using heap_extends_trans [OF e57 heap_extends_append] .
  have len: "length h5 < length h'"
    using heap_extends_length [OF e57] by (simp add: h'_eq)
  show ?thesis
    apply (rule exI [of _ h2], rule exI [of _ ?h4], rule exI [of _ h5])
    using tm post e24 e5 len init_rotor_models_extends [of h]
      init_turbine_models_extends [OF tm] init_wake_models_extends [of ?h4 fl]
    by (simp add: mb h'_eq init_farm_calc_data_models_eq)
qed

lemma ModelBook_init_extends:
  assumes "ModelBook_init fl h ct = Inr (h', mb)"
  shows "heap_extends h h'"
proof -
  from ModelBook_init_parts [OF assms] obtain h2 h4 h5 where
    a: "heap_extends h (fst (init_rotor_models h))"
       "heap_extends (fst (init_rotor_models h)) h2" "heap_extends h2 h4"
       "heap_extends h4 (fst (init_wake_models fl h4))" "heap_extends h5 h'" and
    p: "nopartial_post (fst (init_wake_models fl h4)) (snd (init_wake_models fl h4))
       (map fst wake_model_calls) h5 (wake_models mb)"
    by blast
  from p have "heap_extends (fst (init_wake_models fl h4)) h5"
    by (simp add: nopartial_post_def)
  with a show ?thesis by (blast intro: heap_extends_trans)
qed

subsection \<open>\<open>reduce\<close> as a whole\<close>

lemma count_distinct:
  "distinct (map fst d) \<Longrightarrow> dict_contains d K \<Longrightarrow> length (filter (\<lambda>e. fst e = K) d) = 1"
proof (induction d)
  case Nil
  then show ?case by (simp add: dict_contains_def)
next
  case (Cons p d)
  show ?case
  proof (cases "fst p = K")
    case True
    with Cons.prems(1) have "filter (\<lambda>e. fst e = K) d = []"
      by (force simp: filter_empty_conv image_iff)
    with True show ?thesis by simp
  next
    case False
    with Cons show ?thesis by (simp add: dict_contains_def)
  qed
qed

lemma turbines_loop_contains:
  assumes "turbines_loop mt m0 ts [] = Inr d"
  shows "dict_contains d K \<longleftrightarrow> (\<exists>t \<in> set ts. K \<in> set (info_keys mt t))"
  using wm_loop_contains [OF assms [unfolded turbines_loop_eq], of K]
  by (auto simp: dict_contains_Nil)

lemma turbines_loop_lookup:
  assumes "turbines_loop mt m0 ts [] = Inr d" "dict_contains d K"
  shows "dict_get d K = dict_get m0 K"
proof -
  from assms have "K \<in> set (concat (map (info_keys mt) ts))"
    using turbines_loop_contains [OF assms(1), of K] by auto
  with wm_loop_map_of [OF assms(1) [unfolded turbines_loop_eq], of K]
  show ?thesis by (simp add: dict_get_def dict_contains_Nil)
qed

lemma turbines_loop_distinct:
  assumes "turbines_loop mt m0 ts [] = Inr d"
  shows "distinct (dict_keys d)"
  using wm_loop_distinct [OF assms [unfolded turbines_loop_eq]] by (simp add: dict_keys_def)

lemma turbines_loop_ok_iff:
  "(\<exists>d. turbines_loop mt m0 ts [] = Inr d) \<longleftrightarrow>
     (\<forall>t \<in> set ts. \<forall>k \<in> set (info_keys mt t). dict_contains m0 k)"
  unfolding turbines_loop_eq wm_loop_Inr_iff
  by (auto simp: dict_contains_Nil dict_contains_map_of)

lemma turbines_loop_Inl:
  assumes "turbines_loop mt m0 ts [] = Inl e"
  shows "\<exists>t \<in> set ts. \<exists>k \<in> set (info_keys mt t). e = KeyError k \<and> \<not> dict_contains m0 k"
  using wm_loop_Inl [OF assms [unfolded turbines_loop_eq]]
  by (auto simp: dict_contains_map_of)

lemma reduce_Inr:
  assumes "reduce fl h self farm = Inr (h', mbook)"
  shows "\<exists>mb0. ModelBook_init fl h None = Inr (h', mb0) \<and>
           (\<forall>mt. turbines_loop mt (get_mdict mt self) (turbines farm) [] =
                   Inr (get_mdict mt mbook)) \<and>
           wake_superp mbook = wake_superp self \<and>
           turbine_orders mbook = turbine_orders self \<and>
           amb_states_models mbook = amb_states_models mb0 \<and>
           farm_calc_data_models mbook = farm_calc_data_models mb0 \<and>
           vert_profiles mbook = vert_profiles mb0"
proof -
  from assms obtain mb0 where i: "ModelBook_init fl h None = Inr (h', mb0)"
    and l: "mtyps_loop mtyps self (turbines farm)
              (mb0\<lparr>wake_superp := wake_superp self, turbine_orders := turbine_orders self\<rparr>) =
            Inr mbook"
    by (auto simp: reduce_def Let_def split: sum.splits prod.splits)
  have "\<forall>mt. turbines_loop mt (get_mdict mt self) (turbines farm) [] = Inr (get_mdict mt mbook)"
    using mtyps_loop_Inr [OF l distinct_mtyps set_mtyps] by simp
  with i mtyps_loop_frame [OF l] show ?thesis by simp
qed

lemma reduce_ok_iff:
  "(\<exists>h' mbook. reduce fl h self farm = Inr (h', mbook)) \<longleftrightarrow>
     (\<forall>mt. \<forall>t \<in> set (turbines farm). \<forall>k \<in> set (info_keys mt t).
        dict_contains (get_mdict mt self) k)"
proof -
  obtain h1 mb0 where i: "ModelBook_init fl h None = Inr (h1, mb0)"
    using ModelBook_init_None_ok by blast
  let ?b = "mb0\<lparr>wake_superp := wake_superp self, turbine_orders := turbine_orders self\<rparr>"
  have "(\<exists>h' mbook. reduce fl h self farm = Inr (h', mbook)) \<longleftrightarrow>
          (\<exists>mbook. mtyps_loop mtyps self (turbines farm) ?b = Inr mbook)"
    using i by (auto simp: reduce_def Let_def split: sum.splits)
  also have "\<dots> \<longleftrightarrow> (\<forall>mt. \<exists>d. turbines_loop mt (get_mdict mt self) (turbines farm) [] = Inr d)"
    unfolding mtyps_loop_total using set_mtyps by auto
  finally show ?thesis unfolding turbines_loop_ok_iff .
qed

lemma reduce_Inl:
  assumes "reduce fl h self farm = Inl e"
  shows "\<exists>mt. \<exists>t \<in> set (turbines farm). \<exists>k \<in> set (info_keys mt t).
           e = KeyError k \<and> \<not> dict_contains (get_mdict mt self) k"
proof -
  obtain h1 mb0 where i: "ModelBook_init fl h None = Inr (h1, mb0)"
    using ModelBook_init_None_ok by blast
  with assms have "mtyps_loop mtyps self (turbines farm)
      (mb0\<lparr>wake_superp := wake_superp self, turbine_orders := turbine_orders self\<rparr>) = Inl e"
    by (auto simp: reduce_def Let_def split: sum.splits)
  from mtyps_loop_Inl [OF this] obtain mt where
    "turbines_loop mt (get_mdict mt self) (turbines farm) [] = Inl e" by blast
  from turbines_loop_Inl [OF this] show ?thesis by blast
qed

subsection \<open>Evaluations on the concrete inputs\<close>

lemma ModelBook_init_extends_rotor:
  assumes "ModelBook_init fl h ct = Inr (h', mb)"
  shows "heap_extends (fst (init_rotor_models h)) h'"
proof -
  from ModelBook_init_parts [OF assms] obtain h2 h4 h5 where
    a: "heap_extends (fst (init_rotor_models h)) h2" "heap_extends h2 h4"
       "heap_extends h4 (fst (init_wake_models fl h4))" "heap_extends h5 h'" and
    p: "nopartial_post (fst (init_wake_models fl h4)) (snd (init_wake_models fl h4))
       (map fst wake_model_calls) h5 (wake_models mb)"
    by blast
  from p have "heap_extends (fst (init_wake_models fl h4)) h5"
    by (simp add: nopartial_post_def)
  with a show ?thesis by (blast intro: heap_extends_trans)
qed

lemma ModelBook_init_rest:
  assumes "ModelBook_init fl h ct = Inr (h', mb)"
  shows "amb_states_models mb = []" "vert_profiles mb = init_vert_profiles"
    "farm_calc_data_models mb = [(''cables_mst'', length h' - 1)]"
    "length h < length h'" "h' ! (length h' - 1) = plain CablesMST"
proof -
  from assms obtain h5 where
    h': "h' = fst (init_farm_calc_data_models (fst (init_wake_frames (fst (init_wake_superp h5)))))" and
    mb: "amb_states_models mb = []" "vert_profiles mb = init_vert_profiles"
      "farm_calc_data_models mb =
         snd (init_farm_calc_data_models (fst (init_wake_frames (fst (init_wake_superp h5)))))"
    unfolding ModelBook_init_Inr by auto
  let ?h7 = "fst (init_wake_frames (fst (init_wake_superp h5)))"
  have h'_eq: "h' = ?h7 @ [plain CablesMST]"
    by (simp add: h' init_farm_calc_data_models_eq)
  from heap_extends_length [OF ModelBook_init_extends [OF assms]]
  have le: "length h \<le> length h'" .
  show "amb_states_models mb = []" "vert_profiles mb = init_vert_profiles"
    by (rule mb)+
  show "farm_calc_data_models mb = [(''cables_mst'', length h' - 1)]"
    by (simp add: mb h'_eq init_farm_calc_data_models_eq)
  show "h' ! (length h' - 1) = plain CablesMST"
    by (simp add: h'_eq)
  have "length (fst (init_rotor_models h)) = length h + 27"
    by (simp add: init_rotor_models_eq)
  with heap_extends_length [OF ModelBook_init_extends_rotor [OF assms]]
  show "length h < length h'" by simp
qed

lemma reduce_farm_ab_eval:
  "(case reduce fl0 heap0 book0 farm_ab of
      Inl e \<Rightarrow> False
    | Inr (h', mb) \<Rightarrow>
        dict_keys (rotor_models mb) = [''centre'', ''grid400''] \<and>
        dict_keys (wake_models mb) = [''Jensen'', ''Jensen_rotor''])"
  by code_simp

lemma reduce_farm_ab_ok: "\<exists>h' mb. reduce fl0 heap0 book0 farm_ab = Inr (h', mb)"
  using reduce_farm_ab_eval by (auto split: sum.splits)

lemma reduce_bad_rotor_eval: "reduce fl0 heap0 book0 farm_bad_rotor = Inl (KeyError ''nope'')"
  by code_simp

lemma reduce_bad_controller_eval:
  "reduce fl0 heap0 book0 farm_bad_controller = Inl (KeyError ''nope'')"
  by code_simp

subsection \<open>Parts of a finished book\<close>

lemma ModelBook_init_wake:
  assumes "ModelBook_init fl h ct = Inr (h', mb)"
  shows "\<exists>h4 h5.
     nopartial_post (fst (init_wake_models fl h4)) (snd (init_wake_models fl h4))
       (map fst wake_model_calls) h5 (wake_models mb) \<and>
     heap_extends h5 h'"
  using ModelBook_init_parts [OF assms] by blast

lemma ModelBook_init_turbine:
  assumes "ModelBook_init fl h ct = Inr (h', mb)"
  shows "\<exists>h2. init_turbine_models fl (fst (init_rotor_models h)) ct = Inr (h2, turbine_models mb) \<and>
           heap_extends h2 h'"
proof -
  from ModelBook_init_parts [OF assms] obtain h2 h4 h5 where
    t: "init_turbine_models fl (fst (init_rotor_models h)) ct = Inr (h2, turbine_models mb)" and
    a: "heap_extends h2 h4"
       "heap_extends h4 (fst (init_wake_models fl h4))" "heap_extends h5 h'" and
    p: "nopartial_post (fst (init_wake_models fl h4)) (snd (init_wake_models fl h4))
       (map fst wake_model_calls) h5 (wake_models mb)"
    by blast
  from p have "heap_extends (fst (init_wake_models fl h4)) h5"
    by (simp add: nopartial_post_def)
  with a have "heap_extends h2 h'" by (blast intro: heap_extends_trans)
  with t show ?thesis by blast
qed

lemma upto_4_13: "[4..13] = [4, 5, 6, 7, 8, 9, 10, 11, 12, 13::int]"
  by code_simp

lemma ring_range: "4 \<le> k \<Longrightarrow> k \<le> 13 \<Longrightarrow> k \<in> set [4, 5, 6, 7, 8, 9, 10, 11, 12, 13::int]"
  using upto_4_13 by (metis atLeastAtMost_iff set_upto)

lemma rotor_model_calls_facts:
  "length rotor_model_calls = 27"
  "distinct (map fst rotor_model_calls)"
  by (simp_all add: rotor_model_calls_def)

lemma init_rotor_models_table:
  "init_rotor_models h =
     (h @ map plain (map snd rotor_model_calls),
      zip (map fst rotor_model_calls) [length h ..< length h + length rotor_model_calls])"
  unfolding init_rotor_models_eq rotor_model_calls_facts(1)
  by (simp add: rotor_model_calls_def)

lemma ring_call:
  assumes "4 \<le> k" "k \<le> 13"
  shows "(''ring'' @ str_int k, RMRing (k - 1)) \<in> set rotor_model_calls"
proof -
  from ring_range [OF assms] consider "k = 4" | "k = 5" | "k = 6" | "k = 7" | "k = 8"
    | "k = 9" | "k = 10" | "k = 11" | "k = 12" | "k = 13" by auto
  then show ?thesis
    by cases (simp_all add: str_ring rotor_model_calls_def)
qed


text \<open>The entry of \<open>'ring' + str(k)\<close> in a finished book.\<close>

lemma ring_entry:
  assumes i: "ModelBook_init fl h ct = Inr (h', mb)" and k: "4 \<le> k" "k \<le> 13"
  shows "\<exists>i < 27. rotor_model_calls ! i = (''ring'' @ str_int k, RMRing (k - 1)) \<and>
           map_of (rotor_models mb) (''ring'' @ str_int k) = Some (length h + i) \<and>
           length h + i < length h' \<and>
           h' ! (length h + i) = plain (RMRing (k - 1))"
proof -
  from ModelBook_init_parts [OF i] have r: "rotor_models mb = snd (init_rotor_models h)"
    by blast
  note e = ModelBook_init_extends_rotor [OF i]
  from table_lookup [OF rotor_model_calls_facts(2) ring_call [OF k], of "length h"]
  obtain i where i: "i < length rotor_model_calls"
    "rotor_model_calls ! i = (''ring'' @ str_int k, RMRing (k - 1))"
    "map_of (zip (map fst rotor_model_calls)
       [length h ..< length h + length rotor_model_calls]) (''ring'' @ str_int k) =
     Some (length h + i)" by blast
  have in_h1: "length h + i < length (fst (init_rotor_models h))"
    using i(1) by (simp add: init_rotor_models_table)
  have 1: "length h + i < length h'"
    using in_h1 heap_extends_length [OF e] by simp
  have "h' ! (length h + i) = fst (init_rotor_models h) ! (length h + i)"
    by (rule heap_extends_nth [OF e in_h1])
  also have "\<dots> = plain (RMRing (k - 1))"
    using i(1,2) by (simp add: init_rotor_models_table)
  finally have 2: "h' ! (length h + i) = plain (RMRing (k - 1))" .
  have 3: "map_of (rotor_models mb) (''ring'' @ str_int k) = Some (length h + i)"
    using i(3) by (simp add: r init_rotor_models_table)
  from i(1,2) 1 2 3 show ?thesis
    by (auto simp: rotor_model_calls_facts(1))
qed



section \<open>The claims about \<open>reduce\<close>\<close>

text \<open>
  Claim C1. When \<open>reduce\<close> returns a book, each of its five filtered dictionaries (rotor
  models, turbine models, controllers, wake models, wake frames) holds a name exactly
  when some turbine of the wind farm refers to that name for that kind. A name of the
  reduced wake dictionary has exactly one entry there, however many turbines refer to it,
  and the entry is the reference the source dictionary holds under that name.
\<close>

theorem reduce_keeps_exactly_referenced:
  assumes "reduce fl h self farm = Inr (h', mbook)"
  shows "(\<forall>K. dict_contains (rotor_models mbook) K \<longleftrightarrow>
               (\<exists>t \<in> set (turbines farm). info_rotor_model t = K)) \<and>
         (\<forall>K. dict_contains (turbine_models mbook) K \<longleftrightarrow>
               (\<exists>t \<in> set (turbines farm). K \<in> set (info_turbine_models t))) \<and>
         (\<forall>K. dict_contains (controllers mbook) K \<longleftrightarrow>
               (\<exists>t \<in> set (turbines farm). info_controller t = K)) \<and>
         (\<forall>K. dict_contains (wake_models mbook) K \<longleftrightarrow>
               (\<exists>t \<in> set (turbines farm). K \<in> set (info_wake_models t))) \<and>
         (\<forall>K. dict_contains (wake_frames mbook) K \<longleftrightarrow>
               (\<exists>t \<in> set (turbines farm). info_wake_frame t = K)) \<and>
         (\<forall>K. dict_contains (wake_models mbook) K \<longrightarrow>
               length (filter (\<lambda>e. fst e = K) (wake_models mbook)) = 1 \<and>
               dict_get (wake_models mbook) K = dict_get (wake_models self) K)"
proof -
  from reduce_Inr [OF assms] have
    l: "\<And>mt. turbines_loop mt (get_mdict mt self) (turbines farm) [] = Inr (get_mdict mt mbook)"
    by blast
  have c: "\<And>mt K. dict_contains (get_mdict mt mbook) K \<longleftrightarrow>
             (\<exists>t \<in> set (turbines farm). K \<in> set (info_keys mt t))"
    by (rule turbines_loop_contains [OF l])
  have w: "\<And>K. dict_contains (wake_models mbook) K \<Longrightarrow>
             length (filter (\<lambda>e. fst e = K) (wake_models mbook)) = 1 \<and>
             dict_get (wake_models mbook) K = dict_get (wake_models self) K"
  proof -
    fix K assume k: "dict_contains (wake_models mbook) K"
    have "distinct (map fst (wake_models mbook))"
      using turbines_loop_distinct [OF l [of Wake_models]] by (simp add: dict_keys_def)
    from count_distinct [OF this k] turbines_loop_lookup [OF l [of Wake_models]] k
    show "length (filter (\<lambda>e. fst e = K) (wake_models mbook)) = 1 \<and>
          dict_get (wake_models mbook) K = dict_get (wake_models self) K" by simp
  qed
  show ?thesis
    using c [of Rotor_models] c [of Turbine_models] c [of Controllers] c [of Wake_models]
      c [of Wake_frames] w
    by (simp add: eq_commute [of _ "info_rotor_model _"] eq_commute [of _ "info_controller _"]
        eq_commute [of _ "info_wake_frame _"])
qed


text \<open>
  On \<open>farm_ab\<close> both turbines refer to the wake model \<open>Jensen\<close>: the reduced book has it
  once, with the reference \<open>6\<close> of \<open>book0\<close>, and has neither \<open>Frandsen\<close> nor the rotor
  model \<open>stencil\<close>, which no turbine names.
\<close>

theorem reduce_keeps_exactly_referenced_witness:
  "\<exists>h' mb. reduce fl0 heap0 book0 farm_ab = Inr (h', mb) \<and>
     dict_contains (wake_models mb) ''Jensen'' \<and>
     length (filter (\<lambda>e. fst e = ''Jensen'') (wake_models mb)) = 1 \<and>
     dict_get (wake_models mb) ''Jensen'' = Inr 6 \<and>
     \<not> dict_contains (wake_models mb) ''Frandsen'' \<and>
     \<not> dict_contains (rotor_models mb) ''stencil''"
proof -
  from reduce_farm_ab_ok obtain h' mb where
    r: "reduce fl0 heap0 book0 farm_ab = Inr (h', mb)" by blast
  note t = reduce_keeps_exactly_referenced [OF r]
  have c: "dict_contains (wake_models mb) ''Jensen''"
    "\<not> dict_contains (wake_models mb) ''Frandsen''"
    "\<not> dict_contains (rotor_models mb) ''stencil''"
    using t by (simp_all add: farm_ab_def turbine_a_def turbine_b_def)
  with t have "length (filter (\<lambda>e. fst e = ''Jensen'') (wake_models mb)) = 1"
    "dict_get (wake_models mb) ''Jensen'' = dict_get (wake_models book0) ''Jensen''"
    by blast+
  moreover have "dict_get (wake_models book0) ''Jensen'' = Inr 6"
    by (simp add: book0_def dict_get_def)
  ultimately show ?thesis using r c by auto
qed

text \<open>
  Claim C3, as the code has it. When a turbine refers to a name that the source
  dictionary of that kind does not hold, \<open>reduce\<close> returns no book: it raises
  \<open>KeyError\<close>, and the key the error carries is a name that some turbine refers to and
  that is missing from the source dictionary of its kind. No missing name is skipped. The
  error carries the key only, not the kind of dictionary.
\<close>

theorem reduce_missing_key_raises:
  assumes "t \<in> set (turbines farm)" "K \<in> set (info_keys mt t)"
    "\<not> dict_contains (get_mdict mt self) K"
  shows "\<exists>k. reduce fl h self farm = Inl (KeyError k) \<and>
           (\<exists>mt'. \<exists>t' \<in> set (turbines farm).
              k \<in> set (info_keys mt' t') \<and> \<not> dict_contains (get_mdict mt' self) k)"
proof (cases "reduce fl h self farm")
  case (Inl e)
  from reduce_Inl [OF Inl] Inl show ?thesis by blast
next
  case (Inr s)
  then have "\<exists>h' mbook. reduce fl h self farm = Inr (h', mbook)" by (cases s) simp
  with assms show ?thesis unfolding reduce_ok_iff by blast
qed

text \<open>A turbine whose controller \<open>nope\<close> is not in \<open>book0\<close>.\<close>

theorem reduce_missing_key_raises_witness:
  "reduce fl0 heap0 book0 farm_bad_controller = Inl (KeyError ''nope'') \<and>
   \<not> dict_contains (controllers book0) ''nope''"
proof -
  let ?t = "turbine_a\<lparr>info_controller := ''nope''\<rparr>"
  have 1: "?t \<in> set (turbines farm_bad_controller)"
    by (simp add: farm_bad_controller_def)
  have 2: "''nope'' \<in> set (info_keys Controllers ?t)" by simp
  have 3: "\<not> dict_contains (get_mdict Controllers book0) ''nope''"
    by (simp add: book0_def dict_contains_def)
  from reduce_missing_key_raises [OF 1 2 3, of fl0 heap0] reduce_bad_controller_eval 3
  show ?thesis by simp
qed

text \<open>
  Claim C3 as stated asks for an error that identifies the kind of dictionary as well.
  The name \<open>nope\<close> missing as a rotor model and the same name missing as a controller
  raise the same error, \<open>KeyError 'nope'\<close>: the kind cannot be read off it.
\<close>

theorem reduce_error_has_no_mapping_kind:
  "reduce fl0 heap0 book0 farm_bad_rotor = Inl (KeyError ''nope'') \<and>
   reduce fl0 heap0 book0 farm_bad_controller = Inl (KeyError ''nope'') \<and>
   \<not> dict_contains (rotor_models book0) ''nope'' \<and>
   dict_contains (controllers book0) ''default'' \<and>
   \<not> dict_contains (controllers book0) ''nope'' \<and>
   dict_contains (rotor_models book0) ''centre''"
  using reduce_bad_rotor_eval reduce_bad_controller_eval
  by (simp add: book0_def dict_contains_def)

text \<open>
  Claim C5. Whatever the wind farm, the book \<open>reduce\<close> returns has the wake superposition
  dictionary and the turbine order dictionary of the source book, entry for entry, and
  the objects of the store are untouched. On a wind farm without turbines \<open>reduce\<close> does
  return a book, and the same holds of it.
\<close>

theorem reduce_keeps_superp_and_orders:
  "(\<forall>h' mbook. reduce fl h self farm = Inr (h', mbook) \<longrightarrow>
      wake_superp mbook = wake_superp self \<and> turbine_orders mbook = turbine_orders self \<and>
      heap_extends h h') \<and>
   (\<exists>h' mbook. reduce fl h self \<lparr>turbines = []\<rparr> = Inr (h', mbook) \<and>
      wake_superp mbook = wake_superp self \<and> turbine_orders mbook = turbine_orders self \<and>
      heap_extends h h')"
proof -
  have a: "\<And>farm h' mbook. reduce fl h self farm = Inr (h', mbook) \<Longrightarrow>
      wake_superp mbook = wake_superp self \<and> turbine_orders mbook = turbine_orders self \<and>
      heap_extends h h'"
  proof -
    fix farm h' mbook assume r: "reduce fl h self farm = Inr (h', mbook)"
    from reduce_Inr [OF r] obtain mb0 where i: "ModelBook_init fl h None = Inr (h', mb0)"
      and k: "wake_superp mbook = wake_superp self" "turbine_orders mbook = turbine_orders self"
      by blast
    from ModelBook_init_extends [OF i] k
    show "wake_superp mbook = wake_superp self \<and> turbine_orders mbook = turbine_orders self \<and>
      heap_extends h h'" by simp
  qed
  have "\<exists>h' mbook. reduce fl h self \<lparr>turbines = []\<rparr> = Inr (h', mbook)"
    unfolding reduce_ok_iff by simp
  with a show ?thesis by blast
qed

text \<open>The two dictionaries of \<open>book0\<close> come back from reducing on \<open>farm_ab\<close>.\<close>

theorem reduce_keeps_superp_and_orders_witness:
  "\<exists>h' mb. reduce fl0 heap0 book0 farm_ab = Inr (h', mb) \<and>
     wake_superp mb = [(''ti_linear'', 11)] \<and> turbine_orders mb = [(''farm'', 12)]"
proof -
  from reduce_farm_ab_ok obtain h' mb where
    r: "reduce fl0 heap0 book0 farm_ab = Inr (h', mb)" by blast
  from reduce_keeps_superp_and_orders [of fl0 heap0 book0 farm_ab] r
  have "wake_superp mb = wake_superp book0 \<and> turbine_orders mb = turbine_orders book0"
    by blast
  with r show ?thesis by (auto simp: book0_def)
qed

text \<open>
  Claim C6. When \<open>reduce\<close> returns a book for a source book and a wind farm, reducing
  that book again on the same wind farm returns a book as well, and each of the five
  filtered dictionaries has the same keys as after the first reduction (the dictionaries
  are in fact equal).
\<close>

theorem reduce_idempotent:
  assumes "reduce fl h self farm = Inr (h1, r1)"
  shows "\<exists>h2 r2. reduce fl h1 r1 farm = Inr (h2, r2) \<and>
           set (dict_keys (rotor_models r2)) = set (dict_keys (rotor_models r1)) \<and>
           set (dict_keys (turbine_models r2)) = set (dict_keys (turbine_models r1)) \<and>
           set (dict_keys (controllers r2)) = set (dict_keys (controllers r1)) \<and>
           set (dict_keys (wake_models r2)) = set (dict_keys (wake_models r1)) \<and>
           set (dict_keys (wake_frames r2)) = set (dict_keys (wake_frames r1)) \<and>
           rotor_models r2 = rotor_models r1 \<and> turbine_models r2 = turbine_models r1 \<and>
           controllers r2 = controllers r1 \<and> wake_models r2 = wake_models r1 \<and>
           wake_frames r2 = wake_frames r1"
proof -
  from reduce_Inr [OF assms] have
    l: "\<And>mt. turbines_loop mt (get_mdict mt self) (turbines farm) [] = Inr (get_mdict mt r1)"
    by blast
  have again: "\<And>mt. turbines_loop mt (get_mdict mt r1) (turbines farm) [] = Inr (get_mdict mt r1)"
    using wm_loop_again [OF l [unfolded turbines_loop_eq]] by (simp add: turbines_loop_eq)
  have "\<exists>h2 r2. reduce fl h1 r1 farm = Inr (h2, r2)"
    unfolding reduce_ok_iff
  proof (intro allI ballI)
    fix mt t k assume "t \<in> set (turbines farm)" "k \<in> set (info_keys mt t)"
    then show "dict_contains (get_mdict mt r1) k"
      using turbines_loop_contains [OF l [of mt], of k] by blast
  qed
  then obtain h2 r2 where r: "reduce fl h1 r1 farm = Inr (h2, r2)" by blast
  from reduce_Inr [OF r] have
    "\<And>mt. turbines_loop mt (get_mdict mt r1) (turbines farm) [] = Inr (get_mdict mt r2)"
    by blast
  with again have e: "\<And>mt. get_mdict mt r2 = get_mdict mt r1" by simp
  from e [of Rotor_models] e [of Turbine_models] e [of Controllers] e [of Wake_models]
    e [of Wake_frames] r
  show ?thesis by simp
qed

text \<open>Reducing \<open>book0\<close> on \<open>farm_ab\<close> twice.\<close>

theorem reduce_idempotent_witness:
  "\<exists>h1 r1 h2 r2. reduce fl0 heap0 book0 farm_ab = Inr (h1, r1) \<and>
     reduce fl0 h1 r1 farm_ab = Inr (h2, r2) \<and>
     set (dict_keys (wake_models r2)) = set (dict_keys (wake_models r1)) \<and>
     set (dict_keys (rotor_models r2)) = set (dict_keys (rotor_models r1))"
proof -
  from reduce_farm_ab_ok obtain h' mb where
    r: "reduce fl0 heap0 book0 farm_ab = Inr (h', mb)" by blast
  from reduce_idempotent [OF r] r show ?thesis by blast
qed

text \<open>
  Claim C10. The book \<open>reduce\<close> returns starts as \<open>ModelBook()\<close>, made without a curve
  file on the store \<open>reduce\<close> was called with. Its vertical profiles, ambient states
  models and farm calc data models are those of that fresh book, whatever the source book
  and the wind farm hold: the four profile names, no ambient states model, and one
  \<open>cables_mst\<close> entry that refers to a new \<open>CablesMST\<close> object.
\<close>

theorem reduce_rest_from_fresh_book:
  assumes "reduce fl h self farm = Inr (h', mbook)"
  shows "\<exists>mb0. ModelBook_init fl h None = Inr (h', mb0) \<and>
           vert_profiles mbook = vert_profiles mb0 \<and>
           amb_states_models mbook = amb_states_models mb0 \<and>
           farm_calc_data_models mbook = farm_calc_data_models mb0 \<and>
           amb_states_models mbook = [] \<and>
           vert_profiles mbook =
             [(''ws_abl_log_neutral'', ''ABLLogNeutralWsProfile''),
              (''ws_abl_log_stable'', ''ABLLogStableWsProfile''),
              (''ws_abl_log_unstable'', ''ABLLogUnstableWsProfile''),
              (''ws_abl_log'', ''ABLLogWsProfile'')] \<and>
           (\<exists>a. farm_calc_data_models mbook = [(''cables_mst'', a)] \<and>
                length h \<le> a \<and> a < length h' \<and>
                h' ! a = \<lparr>made_by = CablesMST, partial_wakes = None\<rparr>)"
proof -
  from reduce_Inr [OF assms] obtain mb0 where i: "ModelBook_init fl h None = Inr (h', mb0)"
    and k: "amb_states_models mbook = amb_states_models mb0"
      "farm_calc_data_models mbook = farm_calc_data_models mb0"
      "vert_profiles mbook = vert_profiles mb0"
    by blast
  note p = ModelBook_init_rest [OF i]
  from p(4) have "length h \<le> length h' - 1" by simp
  with i k p show ?thesis
    by (simp add: init_vert_profiles_eq plain_def)
qed

text \<open>
  \<open>book0\<close> has no vertical profile and no farm calc data model; the book reduced from it
  has four and one.
\<close>

theorem reduce_rest_from_fresh_book_witness:
  "\<exists>h' mb. reduce fl0 heap0 book0 farm_ab = Inr (h', mb) \<and>
     amb_states_models mb = [] \<and> length (vert_profiles mb) = 4 \<and>
     vert_profiles book0 = [] \<and> farm_calc_data_models book0 = [] \<and>
     dict_keys (farm_calc_data_models mb) = [''cables_mst'']"
proof -
  from reduce_farm_ab_ok obtain h' mb where
    r: "reduce fl0 heap0 book0 farm_ab = Inr (h', mb)" by blast
  from reduce_rest_from_fresh_book [OF r] obtain a where
    "amb_states_models mb = []"
    "vert_profiles mb =
       [(''ws_abl_log_neutral'', ''ABLLogNeutralWsProfile''),
        (''ws_abl_log_stable'', ''ABLLogStableWsProfile''),
        (''ws_abl_log_unstable'', ''ABLLogUnstableWsProfile''),
        (''ws_abl_log'', ''ABLLogWsProfile'')]"
    "farm_calc_data_models mb = [(''cables_mst'', a)]"
    by blast
  with r show ?thesis
    by (simp add: book0_def dict_keys_def)
qed

section \<open>The claims about the constructor\<close>

text \<open>
  Claim C2. In a finished book, for every name \<open>K\<close> that the constructor registers with a
  wake model whose constructor set \<open>partial_wakes\<close> (the twelve assignments of
  \<open>wake_model_calls\<close>), the wake dictionary also has \<open>K + "_rotor"\<close>. It refers to another
  object than \<open>K\<close> does, made by the same constructor call, with \<open>partial_wakes\<close> false,
  while the object of \<open>K\<close> still has it true; setting the flag of the derived object
  leaves the object of \<open>K\<close> as it is. These are all the names of the dictionary whose
  model has partial wakes: a derived model has none.
\<close>

theorem nopartial_models_derived:
  assumes "ModelBook_init fl h ct = Inr (h', mb)"
  shows "(\<forall>(K, c) \<in> set wake_model_calls. wm_partial_wakes fl c \<longrightarrow>
            (\<exists>a a2. dict_get (wake_models mb) K = Inr a \<and>
                    dict_get (wake_models mb) (K @ ''_rotor'') = Inr a2 \<and>
                    a \<noteq> a2 \<and> a < length h' \<and> a2 < length h' \<and>
                    h' ! a = \<lparr>made_by = c, partial_wakes = Some True\<rparr> \<and>
                    h' ! a2 = \<lparr>made_by = c, partial_wakes = Some False\<rparr> \<and>
                    (\<forall>b. \<exists>hs. set_partial_wakes h' a2 b = Inr hs \<and> hs ! a = h' ! a))) \<and>
         (\<forall>K a. dict_get (wake_models mb) K = Inr a \<longrightarrow> get_partial_wakes h' a = Inr True \<longrightarrow>
            (\<exists>c. (K, c) \<in> set wake_model_calls \<and> wm_partial_wakes fl c))"
proof -
  from ModelBook_init_wake [OF assms] obtain h4 h5 where
    post: "nopartial_post (fst (init_wake_models fl h4)) (snd (init_wake_models fl h4))
       (map fst wake_model_calls) h5 (wake_models mb)" and
    e5: "heap_extends h5 h'" by blast
  let ?hb = "fst (init_wake_models fl h4)" and ?wmb = "snd (init_wake_models fl h4)"
  let ?wk = "wake_models mb"
  from post have eb: "heap_extends ?hb h5" and ok: "wake_ok h5 ?wk"
    and keep: "\<And>k. dict_contains ?wmb k \<Longrightarrow> map_of ?wk k = map_of ?wmb k"
    and new: "\<And>k b. map_of ?wk k = Some b \<Longrightarrow> \<not> dict_contains ?wmb k \<Longrightarrow>
                 partial_wakes (h5 ! b) = Some False"
    and der: "\<And>n b. n \<in> set (map fst wake_model_calls) \<Longrightarrow> map_of ?wmb n = Some b \<Longrightarrow>
                 partial_wakes (?hb ! b) = Some True \<Longrightarrow>
                 \<exists>a2. map_of ?wk (n @ ''_rotor'') = Some a2 \<and> length ?hb \<le> a2 \<and>
                      a2 < length h5 \<and> h5 ! a2 = (?hb ! b)\<lparr>partial_wakes := Some False\<rparr>"
    unfolding nopartial_post_def by blast+
  have first: "\<exists>a a2. dict_get ?wk K = Inr a \<and> dict_get ?wk (K @ ''_rotor'') = Inr a2 \<and>
                    a \<noteq> a2 \<and> a < length h' \<and> a2 < length h' \<and>
                    h' ! a = \<lparr>made_by = c, partial_wakes = Some True\<rparr> \<and>
                    h' ! a2 = \<lparr>made_by = c, partial_wakes = Some False\<rparr> \<and>
                    (\<forall>b. \<exists>hs. set_partial_wakes h' a2 b = Inr hs \<and> hs ! a = h' ! a)"
    if kc: "(K, c) \<in> set wake_model_calls" and flag: "wm_partial_wakes fl c" for K c
  proof -
    from init_wake_models_lookup [OF kc, of fl h4] obtain a where
      a: "map_of ?wmb K = Some a" "a < length ?hb" "?hb ! a = wake_obj fl c" by blast
    from flag a(3) have obj: "?hb ! a = \<lparr>made_by = c, partial_wakes = Some True\<rparr>"
      by (simp add: wake_obj_def)
    from a(1) have "dict_contains ?wmb K" by (simp add: dict_contains_map_of)
    from keep [OF this] a(1) have ka: "map_of ?wk K = Some a" by simp
    from kc have "K \<in> set (map fst wake_model_calls)" by force
    from der [OF this a(1)] obj obtain a2 where
      a2: "map_of ?wk (K @ ''_rotor'') = Some a2" "length ?hb \<le> a2" "a2 < length h5"
        "h5 ! a2 = \<lparr>made_by = c, partial_wakes = Some False\<rparr>" by auto
    have l5: "length h5 \<le> length h'" by (rule heap_extends_length [OF e5])
    have lb: "length ?hb \<le> length h5" by (rule heap_extends_length [OF eb])
    have "h' ! a = h5 ! a" using heap_extends_nth [OF e5, of a] a(2) lb by simp
    also have "\<dots> = ?hb ! a" by (rule heap_extends_nth [OF eb a(2)])
    finally have ha: "h' ! a = \<lparr>made_by = c, partial_wakes = Some True\<rparr>" using obj by simp
    have ha2: "h' ! a2 = \<lparr>made_by = c, partial_wakes = Some False\<rparr>"
      using heap_extends_nth [OF e5 a2(3)] a2(4) by simp
    have ne: "a \<noteq> a2" using a(2) a2(2) by simp
    have in2: "a2 < length h'" using a2(3) l5 by simp
    have untouched: "\<forall>b. \<exists>hs. set_partial_wakes h' a2 b = Inr hs \<and> hs ! a = h' ! a"
      using in2 ne by (simp add: set_partial_wakes_def)
    from ka a2(1) ne a(2) lb l5 in2 ha ha2 untouched show ?thesis
      by (simp add: dict_get_def)
  qed
  have second: "\<exists>c. (K, c) \<in> set wake_model_calls \<and> wm_partial_wakes fl c"
    if k: "dict_get ?wk K = Inr a" and flag: "get_partial_wakes h' a = Inr True" for K a
  proof -
    from k have ka: "map_of ?wk K = Some a"
      by (simp add: dict_get_def split: option.splits)
    with ok have a5: "a < length h5" by (simp add: wake_ok_def)
    from flag have "partial_wakes (h' ! a) = Some True"
      by (simp add: get_partial_wakes_def split: if_splits option.splits)
    with heap_extends_nth [OF e5 a5] have t5: "partial_wakes (h5 ! a) = Some True" by simp
    have c: "dict_contains ?wmb K"
    proof (rule ccontr)
      assume "\<not> dict_contains ?wmb K"
      from new [OF ka this] t5 show False by simp
    qed
    from keep [OF c] ka have "map_of ?wmb K = Some a" by simp
    from init_wake_models_lookup_rev [OF this] obtain c where
      c: "(K, c) \<in> set wake_model_calls" "a < length ?hb" "?hb ! a = wake_obj fl c" by blast
    from heap_extends_nth [OF eb c(2)] c(3) t5 have "wm_partial_wakes fl c"
      by (simp add: wake_obj_def)
    with c(1) show ?thesis by blast
  qed
  from first second show ?thesis by blast
qed

text \<open>\<open>Jensen\<close> and \<open>Jensen_rotor\<close> in the book made on the empty store.\<close>

theorem nopartial_models_derived_witness:
  "\<exists>h' mb a a2. ModelBook_init fl0 [] None = Inr (h', mb) \<and>
     dict_get (wake_models mb) ''Jensen'' = Inr a \<and>
     dict_get (wake_models mb) ''Jensen_rotor'' = Inr a2 \<and> a \<noteq> a2 \<and>
     h' ! a = \<lparr>made_by = WMJensen None, partial_wakes = Some True\<rparr> \<and>
     h' ! a2 = \<lparr>made_by = WMJensen None, partial_wakes = Some False\<rparr>"
proof -
  from ModelBook_init_None_ok obtain h' mb where
    i: "ModelBook_init fl0 [] None = Inr (h', mb)" by blast
  have 1: "(''Jensen'', WMJensen None) \<in> set wake_model_calls"
    by (simp add: wake_model_calls_def)
  have 2: "wm_partial_wakes fl0 (WMJensen None)" by (simp add: fl0_def)
  from nopartial_models_derived [OF i] 1 2 have
    "\<exists>a a2. dict_get (wake_models mb) ''Jensen'' = Inr a \<and>
       dict_get (wake_models mb) (''Jensen'' @ ''_rotor'') = Inr a2 \<and>
       a \<noteq> a2 \<and> a < length h' \<and> a2 < length h' \<and>
       h' ! a = \<lparr>made_by = WMJensen None, partial_wakes = Some True\<rparr> \<and>
       h' ! a2 = \<lparr>made_by = WMJensen None, partial_wakes = Some False\<rparr> \<and>
       (\<forall>b. \<exists>hs. set_partial_wakes h' a2 b = Inr hs \<and> hs ! a = h' ! a)"
    by blast
  with i show ?thesis by auto
qed

text \<open>
  Claim C8. In a finished book, for every \<open>k\<close> from 4 to 13 the rotor dictionary has the
  name \<open>'ring' + str(k)\<close>, referring to an object of the store; the ten names are
  pairwise different and so are the ten objects they refer to.
\<close>

theorem ring_models_distinct:
  assumes "ModelBook_init fl h ct = Inr (h', mb)"
  shows "(\<forall>k \<in> {4..13}. \<exists>a. dict_get (rotor_models mb) (''ring'' @ str_int k) = Inr a \<and>
                               a < length h') \<and>
         inj_on (\<lambda>k. ''ring'' @ str_int k) {4..13} \<and>
         inj_on (\<lambda>k. dict_get (rotor_models mb) (''ring'' @ str_int k)) {4..13}"
proof -
  note e = ring_entry [OF assms]
  have 1: "\<forall>k \<in> {4..13}. \<exists>a. dict_get (rotor_models mb) (''ring'' @ str_int k) = Inr a \<and>
                               a < length h'"
  proof
    fix k :: int assume "k \<in> {4..13}"
    then have "4 \<le> k" "k \<le> 13" by simp_all
    from e [OF this] show "\<exists>a. dict_get (rotor_models mb) (''ring'' @ str_int k) = Inr a \<and>
                               a < length h'"
      by (auto simp: dict_get_def)
  qed
  have 3: "inj_on (\<lambda>k. dict_get (rotor_models mb) (''ring'' @ str_int k)) {4..13}"
  proof (rule inj_onI)
    fix j k :: int assume "j \<in> {4..13}" "k \<in> {4..13}"
      and eq: "dict_get (rotor_models mb) (''ring'' @ str_int j) =
           dict_get (rotor_models mb) (''ring'' @ str_int k)"
    then have b: "4 \<le> j" "j \<le> 13" "4 \<le> k" "k \<le> 13" by simp_all
    from e [OF b(1,2)] obtain i1 where
      i1: "rotor_model_calls ! i1 = (''ring'' @ str_int j, RMRing (j - 1))"
        "map_of (rotor_models mb) (''ring'' @ str_int j) = Some (length h + i1)" by blast
    from e [OF b(3,4)] obtain i2 where
      i2: "rotor_model_calls ! i2 = (''ring'' @ str_int k, RMRing (k - 1))"
        "map_of (rotor_models mb) (''ring'' @ str_int k) = Some (length h + i2)" by blast
    from eq i1(2) i2(2) have "i1 = i2" by (simp add: dict_get_def)
    with i1(1) i2(1) show "j = k" by simp
  qed
  then have 2: "inj_on (\<lambda>k. ''ring'' @ str_int k) {4..13}"
    by (auto simp: inj_on_def)
  from 1 2 3 show ?thesis by blast
qed

text \<open>\<open>ring4\<close> and \<open>ring13\<close> in the book made on the empty store.\<close>

theorem ring_models_distinct_witness:
  "\<exists>h' mb a b. ModelBook_init fl0 [] None = Inr (h', mb) \<and>
     dict_get (rotor_models mb) (''ring'' @ str_int 4) = Inr a \<and>
     dict_get (rotor_models mb) (''ring'' @ str_int 13) = Inr b \<and> a \<noteq> b \<and>
     ''ring'' @ str_int 4 \<noteq> ''ring'' @ str_int 13"
proof -
  from ModelBook_init_None_ok obtain h' mb where
    i: "ModelBook_init fl0 [] None = Inr (h', mb)" by blast
  note t = ring_models_distinct [OF i]
  from t obtain a where a: "dict_get (rotor_models mb) (''ring'' @ str_int 4) = Inr a"
    by fastforce
  from t obtain b where b: "dict_get (rotor_models mb) (''ring'' @ str_int 13) = Inr b"
    by fastforce
  from t have "inj_on (\<lambda>k. dict_get (rotor_models mb) (''ring'' @ str_int k)) {4..13}"
    and "inj_on (\<lambda>k. ''ring'' @ str_int k) {4..13::int}" by blast+
  then have "dict_get (rotor_models mb) (''ring'' @ str_int 4) \<noteq>
      dict_get (rotor_models mb) (''ring'' @ str_int 13)"
    and "''ring'' @ str_int 4 \<noteq> ''ring'' @ str_int 13"
    by (auto dest!: inj_on_contraD [where x = "4::int" and y = "13::int"])
  with a b i show ?thesis by auto
qed

text \<open>
  Claim C9. In a finished book, for every \<open>k\<close> from 4 to 13 the object under
  \<open>'ring' + str(k)\<close> was made by \<open>flm.RMRing(n = k - 1)\<close>: the number in the name is one
  more than the argument.
\<close>

theorem ring_key_is_n_plus_one:
  assumes "ModelBook_init fl h ct = Inr (h', mb)"
  shows "\<forall>k \<in> {4..13}. \<exists>a. dict_get (rotor_models mb) (''ring'' @ str_int k) = Inr a \<and>
           a < length h' \<and> h' ! a = \<lparr>made_by = RMRing (k - 1), partial_wakes = None\<rparr>"
proof (intro ballI)
  fix k :: int assume "k \<in> {4..13}"
  then have "4 \<le> k" "k \<le> 13" by simp_all
  from ring_entry [OF assms this] show "\<exists>a. dict_get (rotor_models mb) (''ring'' @ str_int k) = Inr a \<and>
           a < length h' \<and> h' ! a = \<lparr>made_by = RMRing (k - 1), partial_wakes = None\<rparr>"
    by (auto simp: dict_get_def plain_def)
qed

text \<open>\<open>ring4\<close> holds the model made with \<open>n = 3\<close>.\<close>

theorem ring_key_is_n_plus_one_witness:
  "\<exists>h' mb a. ModelBook_init fl0 [] None = Inr (h', mb) \<and>
     dict_get (rotor_models mb) ''ring4'' = Inr a \<and>
     h' ! a = \<lparr>made_by = RMRing 3, partial_wakes = None\<rparr>"
proof -
  from ModelBook_init_None_ok obtain h' mb where
    i: "ModelBook_init fl0 [] None = Inr (h', mb)" by blast
  have "(4::int) \<in> {4..13}" by simp
  with ring_key_is_n_plus_one [OF i] have
    "\<exists>a. dict_get (rotor_models mb) (''ring'' @ str_int 4) = Inr a \<and>
       a < length h' \<and> h' ! a = \<lparr>made_by = RMRing (4 - 1), partial_wakes = None\<rparr>"
    by blast
  with i show ?thesis by (auto simp: str_ring)
qed



text \<open>
  Claim C7. Without a curve file the constructor succeeds, on every store; the turbine
  dictionary has no key \<open>ct_P_curves\<close> at all, and has the three other entries, which
  refer to the models \<open>Yaw2Yawm\<close>, \<open>Yawm2Yaw\<close> and \<open>ZeroOutsideFarm\<close>. With a curve
  file that \<open>flm.Ws2PCt\<close> accepts, the same three follow \<open>ct_P_curves\<close>.
\<close>

theorem no_curve_file_no_curve_model:
  "(\<exists>h' mb a1 a2 a3. ModelBook_init fl h None = Inr (h', mb) \<and>
      \<not> dict_contains (turbine_models mb) ''ct_P_curves'' \<and>
      turbine_models mb = [(''yaw2yawm'', a1), (''yawm2yaw'', a2), (''zeroOutsideFarm'', a3)] \<and>
      a1 < length h' \<and> a2 < length h' \<and> a3 < length h' \<and>
      made_by (h' ! a1) = Yaw2Yawm True False \<and>
      made_by (h' ! a2) = Yawm2Yaw True False \<and>
      made_by (h' ! a3) = ZeroOutsideFarm) \<and>
   (\<forall>f. ws2pct_accepts fl f \<longrightarrow>
      (\<exists>h' mb. ModelBook_init fl h (Some f) = Inr (h', mb) \<and>
         dict_keys (turbine_models mb) =
           [''ct_P_curves'', ''yaw2yawm'', ''yawm2yaw'', ''zeroOutsideFarm'']))"
proof -
  let ?h1 = "fst (init_rotor_models h)"
  have none: "\<exists>h' mb a1 a2 a3. ModelBook_init fl h None = Inr (h', mb) \<and>
      \<not> dict_contains (turbine_models mb) ''ct_P_curves'' \<and>
      turbine_models mb = [(''yaw2yawm'', a1), (''yawm2yaw'', a2), (''zeroOutsideFarm'', a3)] \<and>
      a1 < length h' \<and> a2 < length h' \<and> a3 < length h' \<and>
      made_by (h' ! a1) = Yaw2Yawm True False \<and>
      made_by (h' ! a2) = Yawm2Yaw True False \<and>
      made_by (h' ! a3) = ZeroOutsideFarm"
  proof -
    from ModelBook_init_None_ok obtain h' mb where
      i: "ModelBook_init fl h None = Inr (h', mb)" by blast
    from ModelBook_init_turbine [OF i] obtain h2 where
      t: "init_turbine_models fl ?h1 None = Inr (h2, turbine_models mb)" and
      e: "heap_extends h2 h'" by blast
    from t have h2: "h2 = ?h1 @ map plain [Yaw2Yawm True False, Yawm2Yaw True False, ZeroOutsideFarm]"
      and tm: "turbine_models mb = [(''yaw2yawm'', length ?h1), (''yawm2yaw'', length ?h1 + 1),
           (''zeroOutsideFarm'', length ?h1 + 2)]"
      by (simp_all add: init_turbine_models_None)
    have l: "length ?h1 + 2 < length h2" by (simp add: h2)
    have l': "length h2 \<le> length h'" by (rule heap_extends_length [OF e])
    have o1: "h' ! length ?h1 = plain (Yaw2Yawm True False)"
      using heap_extends_nth [OF e, of "length ?h1"] l by (simp add: h2)
    have o2: "h' ! (length ?h1 + 1) = plain (Yawm2Yaw True False)"
      using heap_extends_nth [OF e, of "length ?h1 + 1"] l by (simp add: h2 nth_append)
    have o3: "h' ! (length ?h1 + 2) = plain ZeroOutsideFarm"
      using heap_extends_nth [OF e, of "length ?h1 + 2"] l by (simp add: h2 nth_append)
    have nc: "\<not> dict_contains (turbine_models mb) ''ct_P_curves''"
      by (simp add: tm dict_contains_def)
    show ?thesis
      apply (rule exI [of _ h'], rule exI [of _ mb], rule exI [of _ "length ?h1"],
          rule exI [of _ "length ?h1 + 1"], rule exI [of _ "length ?h1 + 2"])
      using i nc tm l l' o1 o2 o3 by (simp add: plain_def)
  qed
  have some: "\<exists>h' mb. ModelBook_init fl h (Some f) = Inr (h', mb) \<and>
         dict_keys (turbine_models mb) =
           [''ct_P_curves'', ''yaw2yawm'', ''yawm2yaw'', ''zeroOutsideFarm'']"
    if f: "ws2pct_accepts fl f" for f
  proof -
    from f have "\<exists>h' mb. ModelBook_init fl h (Some f) = Inr (h', mb)"
      unfolding ModelBook_init_ok by simp
    then obtain h' mb where i: "ModelBook_init fl h (Some f) = Inr (h', mb)" by blast
    from ModelBook_init_turbine [OF i] obtain h2 where
      "init_turbine_models fl ?h1 (Some f) = Inr (h2, turbine_models mb)" by blast
    with f have "turbine_models mb =
        [(''ct_P_curves'', length ?h1), (''yaw2yawm'', length ?h1 + 1),
         (''yawm2yaw'', length ?h1 + 2), (''zeroOutsideFarm'', length ?h1 + 3)]"
      by (simp add: init_turbine_models_Some)
    then have "dict_keys (turbine_models mb) =
           [''ct_P_curves'', ''yaw2yawm'', ''yawm2yaw'', ''zeroOutsideFarm'']"
      by (simp add: dict_keys_def)
    with i show ?thesis by blast
  qed
  from none some show ?thesis by blast
qed

text \<open>The book made on the empty store, without a curve file and with \<open>curves.csv\<close>.\<close>

theorem no_curve_file_no_curve_model_witness:
  "(\<exists>h' mb. ModelBook_init fl0 [] None = Inr (h', mb) \<and>
      \<not> dict_contains (turbine_models mb) ''ct_P_curves'' \<and>
      dict_keys (turbine_models mb) = [''yaw2yawm'', ''yawm2yaw'', ''zeroOutsideFarm'']) \<and>
   ws2pct_accepts fl0 ''curves.csv'' \<and>
   (\<exists>h' mb. ModelBook_init fl0 [] (Some ''curves.csv'') = Inr (h', mb) \<and>
      dict_keys (turbine_models mb) =
        [''ct_P_curves'', ''yaw2yawm'', ''yawm2yaw'', ''zeroOutsideFarm''])"
proof -
  note t = no_curve_file_no_curve_model [of fl0 "[]"]
  have a: "ws2pct_accepts fl0 ''curves.csv''" by (simp add: fl0_def)
  from t obtain h' mb a1 a2 a3 where
    "ModelBook_init fl0 [] None = Inr (h', mb)"
    "\<not> dict_contains (turbine_models mb) ''ct_P_curves''"
    "turbine_models mb = [(''yaw2yawm'', a1), (''yawm2yaw'', a2), (''zeroOutsideFarm'', a3)]"
    by blast
  then have "\<exists>h' mb. ModelBook_init fl0 [] None = Inr (h', mb) \<and>
      \<not> dict_contains (turbine_models mb) ''ct_P_curves'' \<and>
      dict_keys (turbine_models mb) = [''yaw2yawm'', ''yawm2yaw'', ''zeroOutsideFarm'']"
    by (auto simp: dict_keys_def)
  with t a show ?thesis by blast
qed

end
